theory Spec2Isabelle
  imports Main
begin

section \<open>Strings\<close>

text \<open>
  A JavaScript string is modelled as a \<^typ>\<open>string\<close>: a list of code units, of which the
  model has the first 256 (Latin-1). The character classes below are those of the
  regular expressions and string functions of the worker, cut down to that range:
  \<open>\s\<close> is white space and line terminators, \<open>\w\<close> is \<open>[A-Za-z0-9_]\<close>, \<open>\d\<close> is
  \<open>[0-9]\<close>, and \<open>.\<close> (without the \<open>s\<close> flag) is every code unit that is not a line
  terminator.
\<close>

definition is_line_terminator :: "char \<Rightarrow> bool" where
  "is_line_terminator c \<longleftrightarrow> c = CHR 0x0A \<or> c = CHR 0x0D"

definition is_space :: "char \<Rightarrow> bool" where
  "is_space c \<longleftrightarrow>
     c = CHR 0x09 \<or> c = CHR 0x0A \<or> c = CHR 0x0B \<or> c = CHR 0x0C \<or> c = CHR 0x0D \<or>
     c = CHR '' '' \<or> c = CHR 0xA0"

definition is_digit :: "char \<Rightarrow> bool" where
  "is_digit c \<longleftrightarrow> c \<in> set ''0123456789''"

definition is_word :: "char \<Rightarrow> bool" where
  "is_word c \<longleftrightarrow>
     c \<in> set ''abcdefghijklmnopqrstuvwxyzABCDEFGHIJKLMNOPQRSTUVWXYZ0123456789_''"

definition dot :: "char \<Rightarrow> bool" where
  "dot c \<longleftrightarrow> \<not> is_line_terminator c"

text \<open>
  \<open>toLowerCase\<close>: the upper-case letters of Latin-1 are the code units 65..90 and
  192..222 without 215; the lower-case letter is 32 further, which is bit 5 set.
\<close>

fun toLowerChar :: "char \<Rightarrow> char" where
  "toLowerChar (Char b0 b1 b2 b3 b4 b5 b6 b7) =
     (let n = (of_char (Char b0 b1 b2 b3 b4 b5 b6 b7) :: nat) in
      if (65 \<le> n \<and> n \<le> 90) \<or> (192 \<le> n \<and> n \<le> 222 \<and> n \<noteq> 215)
      then Char b0 b1 b2 b3 b4 True b6 b7
      else Char b0 b1 b2 b3 b4 b5 b6 b7)"

definition toLowerCase :: "string \<Rightarrow> string" where
  "toLowerCase s = map toLowerChar s"

text \<open>\<open>trim\<close> removes white space and line terminators at both ends.\<close>

definition trim :: "string \<Rightarrow> string" where
  "trim s = rev (dropWhile is_space (rev (dropWhile is_space s)))"

text \<open>\<open>s.split(sep)\<close> for a separator of one code unit; the empty string gives \<open>[""]\<close>.\<close>

fun split_on :: "char \<Rightarrow> string \<Rightarrow> string list" where
  "split_on sep [] = [[]]"
| "split_on sep (c # cs) =
     (if c = sep then [] # split_on sep cs
      else (case split_on sep cs of
              p # ps \<Rightarrow> (c # p) # ps
            | [] \<Rightarrow> [[c]]))"

text \<open>\<open>s.includes(k)\<close>: \<open>k\<close> occurs in \<open>s\<close> as a contiguous substring.\<close>

fun startsWith :: "string \<Rightarrow> string \<Rightarrow> bool" where
  "startsWith s [] = True"
| "startsWith [] (k # ks) = False"
| "startsWith (c # cs) (k # ks) = (c = k \<and> startsWith cs ks)"

fun includes_str :: "string \<Rightarrow> string \<Rightarrow> bool" where
  "includes_str [] k = (k = [])"
| "includes_str (c # cs) k = (startsWith (c # cs) k \<or> includes_str cs k)"

text \<open>
  \<open>parseInt(s, 10)\<close>: leading white space is skipped, one sign is read, then the
  longest run of decimal digits; what follows the digits is ignored. No digit gives
  \<open>NaN\<close>, here \<open>None\<close>. The value is kept as an unbounded integer: the worker only
  compares it with 0 and 255, which the rounding of a double does not change.
\<close>

definition digit_val :: "char \<Rightarrow> nat" where
  "digit_val c = of_char c - 48"

definition decimal :: "string \<Rightarrow> nat" where
  "decimal ds = foldl (\<lambda>n c. 10 * n + digit_val c) 0 ds"

definition parseInt :: "string \<Rightarrow> int option" where
  "parseInt s =
     (let S = dropWhile is_space s;
          sign = (case S of c # _ \<Rightarrow> if c = CHR ''-'' then - 1 else 1 | [] \<Rightarrow> (1::int));
          S' = (case S of c # cs \<Rightarrow> if c = CHR ''+'' \<or> c = CHR ''-'' then cs else S | [] \<Rightarrow> S);
          Z = takeWhile is_digit S'
      in if Z = [] then None else Some (sign * int (decimal Z)))"

section \<open>Recognising IP addresses\<close>

definition isIPAddress :: "string \<Rightarrow> bool" where
  "isIPAddress str =
     (let parts = split_on (CHR ''.'') str in
      if length parts \<noteq> 4 then False
      else list_all (\<lambda>part. case parseInt part of
                              None \<Rightarrow> False
                            | Some num \<Rightarrow> 0 \<le> num \<and> num \<le> 255) parts)"

section \<open>Regular expressions by backtracking\<close>

text \<open>
  The two regular expressions of the worker quantify only over single character
  classes, so the backtracking matcher is written with three combinators in
  continuation style. Each receives the class \<open>P\<close>, the continuation \<open>k\<close> (the rest of
  the pattern, given the text the quantifier matched and the input that is left) and
  tries the possible lengths in the order of the language: a lazy quantifier shortest
  first, a greedy one longest first. The first success of \<open>k\<close> is the match.
\<close>

fun lazy_star :: "(char \<Rightarrow> bool) \<Rightarrow> (string \<Rightarrow> string \<Rightarrow> 'a option) \<Rightarrow> string \<Rightarrow> string \<Rightarrow> 'a option" where
  "lazy_star P k acc [] = k acc []"
| "lazy_star P k acc (c # cs) =
     (case k acc (c # cs) of
        Some r \<Rightarrow> Some r
      | None \<Rightarrow> if P c then lazy_star P k (acc @ [c]) cs else None)"

fun greedy_star :: "(char \<Rightarrow> bool) \<Rightarrow> (string \<Rightarrow> string \<Rightarrow> 'a option) \<Rightarrow> string \<Rightarrow> string \<Rightarrow> 'a option" where
  "greedy_star P k acc [] = k acc []"
| "greedy_star P k acc (c # cs) =
     (if P c then (case greedy_star P k (acc @ [c]) cs of
                     Some r \<Rightarrow> Some r
                   | None \<Rightarrow> k acc (c # cs))
      else k acc (c # cs))"

definition greedy_plus :: "(char \<Rightarrow> bool) \<Rightarrow> (string \<Rightarrow> string \<Rightarrow> 'a option) \<Rightarrow> string \<Rightarrow> 'a option" where
  "greedy_plus P k s =
     (case s of
        c # cs \<Rightarrow> if P c then greedy_star P k [c] cs else None
      | [] \<Rightarrow> None)"

text \<open>The greedy bounded quantifier \<open>{1,3}\<close> is one \<open>P\<close> and then at most two more.\<close>

fun greedy_upto :: "nat \<Rightarrow> (char \<Rightarrow> bool) \<Rightarrow> (string \<Rightarrow> string \<Rightarrow> 'a option) \<Rightarrow> string \<Rightarrow> string \<Rightarrow> 'a option" where
  "greedy_upto 0 P k acc s = k acc s"
| "greedy_upto (Suc n) P k acc [] = k acc []"
| "greedy_upto (Suc n) P k acc (c # cs) =
     (if P c then (case greedy_upto n P k (acc @ [c]) cs of
                     Some r \<Rightarrow> Some r
                   | None \<Rightarrow> k acc (c # cs))
      else k acc (c # cs))"

definition greedy_1_3 :: "(char \<Rightarrow> bool) \<Rightarrow> (string \<Rightarrow> string \<Rightarrow> 'a option) \<Rightarrow> string \<Rightarrow> 'a option" where
  "greedy_1_3 P k s =
     (case s of
        c # cs \<Rightarrow> if P c then greedy_upto 2 P k [c] cs else None
      | [] \<Rightarrow> None)"

definition literal :: "char \<Rightarrow> (string \<Rightarrow> 'a option) \<Rightarrow> string \<Rightarrow> 'a option" where
  "literal x k s = (case s of c # cs \<Rightarrow> if c = x then k cs else None | [] \<Rightarrow> None)"

section \<open>The line parser\<close>

text \<open>
  \<^verbatim>\<open>LOG_REGEX = /\[(.*?)\]\s+(\w+)\s+(.*?)(?:\s+(\{.*\}))?$/\<close>

  \<open>log_regex_at\<close> is the pattern tried at the start of its argument; the result is
  the four capture groups, the fourth \<open>None\<close> when the optional group took no part in
  the match. The optional group is greedy: the match with the group is tried before
  the match without it. \<open>log_regex_exec\<close> is \<open>line.match(LOG_REGEX)\<close>: the pattern is
  not anchored at the start, so the start positions are tried from left to right.
\<close>

definition log_regex_json :: "string \<Rightarrow> string option" where
  "log_regex_json s =
     greedy_plus is_space (\<lambda>_.
       literal (CHR ''{'')
         (greedy_star dot (\<lambda>body.
            literal (CHR ''}'') (\<lambda>r. if r = [] then Some (''{'' @ body @ ''}'') else None)) [])) s"

definition log_regex_at :: "string \<Rightarrow> (string \<times> string \<times> string \<times> string option) option" where
  "log_regex_at s =
     literal (CHR ''['')
       (lazy_star dot (\<lambda>timestamp.
          literal (CHR '']'')
            (greedy_plus is_space (\<lambda>_.
               greedy_plus is_word (\<lambda>level.
                 greedy_plus is_space (\<lambda>_.
                   lazy_star dot (\<lambda>message r.
                     (case log_regex_json r of
                        Some jsonStr \<Rightarrow> Some (timestamp, level, message, Some jsonStr)
                      | None \<Rightarrow> if r = [] then Some (timestamp, level, message, None)
                                else None)) []))))) []) s"

fun log_regex_exec :: "string \<Rightarrow> (string \<times> string \<times> string \<times> string option) option" where
  "log_regex_exec [] = log_regex_at []"
| "log_regex_exec (c # cs) =
     (case log_regex_at (c # cs) of
        Some m \<Rightarrow> Some m
      | None \<Rightarrow> log_regex_exec cs)"

text \<open>
  A parsed JSON value. \<open>JSON.parse\<close> belongs to the language, not to the repository:
  the parser takes it as the parameter \<open>jsonParse\<close>, \<open>None\<close> where \<open>JSON.parse\<close> throws.
  An object is the list of its entries, as \<open>Object.entries\<close> gives them; a number
  carries its text, which the worker never reads.
\<close>

datatype json =
    JNull
  | JBool bool
  | JNumber string
  | JString string
  | JArray "json list"
  | JObject "(string \<times> json) list"

record ParsedLog =
  timestamp :: string
  level :: string
  message :: string
  jsonPayload :: "json option"

definition parseLine :: "(string \<Rightarrow> json option) \<Rightarrow> string \<Rightarrow> ParsedLog option" where
  "parseLine jsonParse line =
     (case log_regex_exec line of
        None \<Rightarrow> None
      | Some (ts, lv, msg, jsonStr) \<Rightarrow>
          Some \<lparr> timestamp = ts, level = lv, message = msg,
                 jsonPayload = (case jsonStr of
                                  None \<Rightarrow> None
                                | Some js \<Rightarrow> jsonParse js) \<rparr>)"

section \<open>The statistics accumulator\<close>

record LogStats =
  totalEntries :: nat
  errorCount :: nat
  keywordMatches :: "string \<rightharpoonup> nat"
  ipAddresses :: "string \<rightharpoonup> nat"
  processingTime :: int

text \<open>
  \<^verbatim>\<open>stats.ipAddresses[ip] = (stats.ipAddresses[ip] || 0) + 1\<close>, the statement both
  extraction functions run on an accepted string.
\<close>

definition count_ip :: "string \<Rightarrow> LogStats \<Rightarrow> LogStats" where
  "count_ip ip stats =
     stats\<lparr> ipAddresses :=
       (ipAddresses stats)(ip \<mapsto> (case ipAddresses stats ip of None \<Rightarrow> 0 | Some n \<Rightarrow> n) + 1) \<rparr>"

text \<open>
  \<open>extractIPs\<close> walks the entries of an object (or of an array, whose entries are its
  elements): a string value that \<open>isIPAddress\<close> accepts is counted, an object or array
  value is walked in turn, every other value is passed over.
\<close>

fun extractIPs :: "json \<Rightarrow> LogStats \<Rightarrow> LogStats"
  and extractIPs_entries :: "(string \<times> json) list \<Rightarrow> LogStats \<Rightarrow> LogStats"
  and extractIPs_items :: "json list \<Rightarrow> LogStats \<Rightarrow> LogStats"
  and extractIPs_value :: "json \<Rightarrow> LogStats \<Rightarrow> LogStats" where
  "extractIPs (JObject kvs) stats = extractIPs_entries kvs stats"
| "extractIPs (JArray vs) stats = extractIPs_items vs stats"
| "extractIPs JNull stats = stats"
| "extractIPs (JBool b) stats = stats"
| "extractIPs (JNumber n) stats = stats"
| "extractIPs (JString s) stats = stats"
| "extractIPs_entries [] stats = stats"
| "extractIPs_entries ((key, v) # kvs) stats = extractIPs_entries kvs (extractIPs_value v stats)"
| "extractIPs_items [] stats = stats"
| "extractIPs_items (v # vs) stats = extractIPs_items vs (extractIPs_value v stats)"
| "extractIPs_value (JString s) stats = (if isIPAddress s then count_ip s stats else stats)"
| "extractIPs_value (JObject kvs) stats = extractIPs (JObject kvs) stats"
| "extractIPs_value (JArray vs) stats = extractIPs (JArray vs) stats"
| "extractIPs_value JNull stats = stats"
| "extractIPs_value (JBool b) stats = stats"
| "extractIPs_value (JNumber n) stats = stats"

text \<open>
  \<^verbatim>\<open>ipv4Regex = /\b\d{1,3}\.\d{1,3}\.\d{1,3}\.\d{1,3}\b/g\<close>

  \<open>\b\<close> holds between two code units of which exactly one is a word character, the
  ends of the text counting as non-word. \<open>ipv4_regex_at prev s\<close> is the pattern tried
  at the start of \<open>s\<close>, which \<open>prev\<close> precedes; it gives the matched text.
  \<open>ipv4_regex_matches\<close> is \<open>text.match(ipv4Regex)\<close> with the \<open>g\<close> flag: all matches
  from left to right, each search starting where the last match ended (\<open>skip\<close> counts
  the code units of the last match still to pass).
\<close>

definition word_boundary :: "char option \<Rightarrow> string \<Rightarrow> bool" where
  "word_boundary prev s \<longleftrightarrow>
     (case prev of Some p \<Rightarrow> is_word p | None \<Rightarrow> False) \<noteq>
     (case s of c # _ \<Rightarrow> is_word c | [] \<Rightarrow> False)"

definition ipv4_regex_at :: "char option \<Rightarrow> string \<Rightarrow> string option" where
  "ipv4_regex_at prev s =
     (if word_boundary prev s then
        greedy_1_3 is_digit (\<lambda>a.
          literal (CHR ''.'') (greedy_1_3 is_digit (\<lambda>b.
            literal (CHR ''.'') (greedy_1_3 is_digit (\<lambda>c.
              literal (CHR ''.'') (greedy_1_3 is_digit (\<lambda>d r.
                if word_boundary (Some (last d)) r
                then Some (a @ ''.'' @ b @ ''.'' @ c @ ''.'' @ d)
                else None))))))) s
      else None)"

fun ipv4_regex_scan :: "nat \<Rightarrow> char option \<Rightarrow> string \<Rightarrow> string list" where
  "ipv4_regex_scan skip prev [] = []"
| "ipv4_regex_scan skip prev (c # cs) =
     (if 0 < skip then ipv4_regex_scan (skip - 1) (Some c) cs
      else (case ipv4_regex_at prev (c # cs) of
              Some m \<Rightarrow> m # ipv4_regex_scan (length m - 1) (Some c) cs
            | None \<Rightarrow> ipv4_regex_scan 0 (Some c) cs))"

definition ipv4_regex_matches :: "string \<Rightarrow> string list" where
  "ipv4_regex_matches text = ipv4_regex_scan 0 None text"

definition extractIPsFromText :: "string \<Rightarrow> LogStats \<Rightarrow> LogStats" where
  "extractIPsFromText text stats =
     fold (\<lambda>ip st. if isIPAddress ip then count_ip ip st else st) (ipv4_regex_matches text) stats"


text \<open>
  \<^verbatim>\<open>obj[key] = v\<close> on an object that was made by the literal \<^verbatim>\<open>{}\<close>: the value becomes
  the own property \<open>key\<close>, except for the key \<^verbatim>\<open>__proto__\<close>, where the assignment goes
  to the setter of the prototype, which passes over a number and creates no key.
\<close>

definition assign :: "(string \<rightharpoonup> nat) \<Rightarrow> string \<Rightarrow> nat \<Rightarrow> (string \<rightharpoonup> nat)" where
  "assign obj key v = (if key = ''__proto__'' then obj else obj(key \<mapsto> v))"

text \<open>
  The accumulator at the start of a scan: \<open>keywordMatches\<close> is the literal \<^verbatim>\<open>{}\<close>, and
  then \<^verbatim>\<open>stats.keywordMatches[keyword] = 0\<close> for every monitored keyword.
\<close>

definition init_stats :: "string list \<Rightarrow> LogStats" where
  "init_stats keywords =
     \<lparr> totalEntries = 0, errorCount = 0,
       keywordMatches = fold (\<lambda>keyword m. assign m keyword 0) keywords Map.empty,
       ipAddresses = Map.empty, processingTime = 0 \<rparr>"

text \<open>
  \<^verbatim>\<open>stats.keywordMatches[keyword]++\<close>. On a key that is present the count grows by
  one. The key \<^verbatim>\<open>__proto__\<close> is never present, and its increment assigns nothing. On
  another key that is absent the language stores \<open>NaN\<close>, which a count has no value
  for; the scan only increments the keywords it has initialised.
\<close>

definition increment :: "(string \<rightharpoonup> nat) \<Rightarrow> string \<Rightarrow> (string \<rightharpoonup> nat)" where
  "increment m keyword = (case m keyword of None \<Rightarrow> m | Some n \<Rightarrow> m(keyword \<mapsto> n + 1))"

definition is_object :: "json \<Rightarrow> bool" where
  "is_object v = (case v of JObject _ \<Rightarrow> True | JArray _ \<Rightarrow> True | _ \<Rightarrow> False)"

text \<open>
  \<open>foldRecord\<close> is the block that \<open>processLogFile\<close> runs on a parsed line, and
  \<open>foldLine\<close> is parsing a line and folding it: a line that does not parse leaves the
  accumulator as it is.
\<close>

definition foldRecord :: "string list \<Rightarrow> ParsedLog \<Rightarrow> LogStats \<Rightarrow> LogStats" where
  "foldRecord keywords parsed stats =
     (let s1 = stats\<lparr> totalEntries := totalEntries stats + 1 \<rparr>;
          s2 = (if toLowerCase (level parsed) = ''error''
                then s1\<lparr> errorCount := errorCount s1 + 1 \<rparr> else s1);
          s3 = fold (\<lambda>keyword st.
                  if includes_str (toLowerCase (message parsed)) keyword
                  then st\<lparr> keywordMatches := increment (keywordMatches st) keyword \<rparr>
                  else st) keywords s2;
          s4 = (case jsonPayload parsed of
                  Some v \<Rightarrow> if is_object v then extractIPs v s3 else s3
                | None \<Rightarrow> s3)
      in extractIPsFromText (message parsed) s4)"

definition foldLine :: "(string \<Rightarrow> json option) \<Rightarrow> string list \<Rightarrow> string \<Rightarrow> LogStats \<Rightarrow> LogStats" where
  "foldLine jsonParse keywords line stats =
     (case parseLine jsonParse line of
        None \<Rightarrow> stats
      | Some parsed \<Rightarrow> foldRecord keywords parsed stats)"

section \<open>The world of one job\<close>

text \<open>
  The worker talks to a durable store, a blob store, the local file system, a timer
  and the clock. What they answer is not decided by the worker, so the model takes
  it as given: an \<open>env\<close> fixes, for one execution of the job handler, the answer of
  every such call. The state that the handler reads and writes is the \<open>world\<close>.

  The store is the \<open>log_stats\<close> row of the job at hand. Publishing on the
  \<open>job-updates\<close> channel, \<open>job.updateProgress\<close>, the diagnostic calls on buckets, the
  sample of the first lines and the pause under memory pressure change nothing the
  handler reads back: they are taken to succeed and are left out. Of the log, only
  \<open>console.error\<close> is kept.
\<close>

datatype job_status = Waiting | Processing | Completed | Failed

record job_row =
  row_status :: job_status
  row_progress :: nat
  row_error :: "string option"
  row_stats :: "LogStats option"

text \<open>
  What one download attempt meets: the storage call throws, or answers nothing, an
  error, no data, data that cannot be turned into a buffer, or the bytes.
\<close>

datatype download_result =
    Rejected string
  | NoResponse
  | StorageError string
  | NoData
  | Unconvertible string
  | Payload string

text \<open>
  The safety timer fires at most once: never while the handler runs, or while the
  handler waits before it calls the scanner, or during the scan when the given
  number of lines have been handled.
\<close>

datatype timer_event = Never | BeforeScan | AfterLines nat

record env =
  store_error :: "nat \<Rightarrow> string option"
  download :: "nat \<Rightarrow> download_result"
  write_error :: "nat \<Rightarrow> string option"
  unlink_error :: "string option"
  timer :: timer_event
  tmpdir :: string
  stamp :: "nat \<Rightarrow> string"
  now_start :: int
  now_loop :: int
  now_line :: "nat \<Rightarrow> int"
  now_end :: int

record world =
  aborted :: bool
  timeoutId :: bool
  row :: job_row
  store_calls :: nat
  files :: "string \<rightharpoonup> string"
  attempts :: nat
  waits :: "nat list"
  console_error :: "string list"

text \<open>
  A thrown value is an \<open>Error\<close> with its message, or the error object of the store,
  here with the message it carries. \<open>error_text\<close> is
  \<^verbatim>\<open>error instanceof Error ? error.message : String(error)\<close>, the text the handler
  reports: the error object of the store is a plain object and no \<open>Error\<close>, and
  \<open>String\<close> of a plain object is \<^verbatim>\<open>[object Object]\<close>.
\<close>

datatype exn = Error string | StoreError string

definition error_text :: "exn \<Rightarrow> string" where
  "error_text e = (case e of Error m \<Rightarrow> m | StoreError m \<Rightarrow> ''[object Object]'')"

definition and_then ::
  "(exn + 'a) \<times> world \<Rightarrow> ('a \<Rightarrow> world \<Rightarrow> (exn + 'b) \<times> world) \<Rightarrow> (exn + 'b) \<times> world" where
  "and_then r f = (case r of (Inl e, w) \<Rightarrow> (Inl e, w) | (Inr x, w) \<Rightarrow> f x w)"

definition log_error :: "string \<Rightarrow> world \<Rightarrow> world" where
  "log_error m w = w\<lparr> console_error := console_error w @ [m] \<rparr>"

section \<open>Writing to the store\<close>

text \<open>
  \<open>updateJobStatus\<close> writes status and progress, and the error text when it is given
  and not empty. When the store answers with an error, the function logs it and
  throws it (and its own \<open>catch\<close> logs and throws it again).
\<close>

definition updateJobStatus ::
  "env \<Rightarrow> job_status \<Rightarrow> nat \<Rightarrow> string option \<Rightarrow> world \<Rightarrow> (exn + unit) \<times> world" where
  "updateJobStatus E st pr err w =
     (let w1 = w\<lparr> store_calls := store_calls w + 1 \<rparr> in
      case store_error E (store_calls w) of
        Some dbError \<Rightarrow>
          (Inl (StoreError dbError),
           log_error ''Exception updating job status:'' (log_error ''Error updating job status:'' w1))
      | None \<Rightarrow>
          (Inr (),
           w1\<lparr> row := (row w1)\<lparr> row_status := st, row_progress := pr,
                   row_error := (case err of
                                   Some m \<Rightarrow> if m \<noteq> [] then Some m else row_error (row w1)
                                 | None \<Rightarrow> row_error (row w1)) \<rparr> \<rparr>))"

definition updateJobStats ::
  "env \<Rightarrow> LogStats \<Rightarrow> job_status \<Rightarrow> nat \<Rightarrow> world \<Rightarrow> (exn + unit) \<times> world" where
  "updateJobStats E st_final st pr w =
     (let w1 = w\<lparr> store_calls := store_calls w + 1 \<rparr> in
      case store_error E (store_calls w) of
        Some dbError \<Rightarrow>
          (Inl (StoreError dbError),
           log_error ''Exception updating job stats:'' (log_error ''Error updating job stats:'' w1))
      | None \<Rightarrow>
          (Inr (),
           w1\<lparr> row := (row w1)\<lparr> row_status := st, row_progress := pr,
                   row_stats := Some st_final \<rparr> \<rparr>))"

section \<open>File retrieval\<close>

text \<open>
  The scratch file of attempt \<open>n\<close> is
  \<^verbatim>\<open>path.join(tempDir, `job-${jobId}-${Date.now()}-${path.basename(filePath)}`)\<close>,
  where \<open>tempDir\<close> is the directory \<open>log-processor\<close> under \<open>os.tmpdir()\<close> and
  \<open>stamp E n\<close> is the text of \<open>Date.now()\<close> in that attempt. The parts are joined as
  they are: \<open>path.join\<close> would also resolve a \<open>..\<close> between slashes in the job id, and
  the ids that the queue hands out have no slash.
\<close>

definition basename :: "string \<Rightarrow> string" where
  "basename p =
     rev (takeWhile (\<lambda>c. c \<noteq> CHR ''/'') (dropWhile (\<lambda>c. c = CHR ''/'') (rev p)))"

definition tempFilePath :: "env \<Rightarrow> string \<Rightarrow> nat \<Rightarrow> string \<Rightarrow> string" where
  "tempFilePath E jobId n filePath =
     tmpdir E @ ''/log-processor/job-'' @ jobId @ ''-'' @ stamp E n @ ''-'' @ basename filePath"

text \<open>
  One pass through the \<open>try\<close> block of the retry loop, in attempt \<open>n\<close> (counted from
  0): the path of the written file, or the message of what was thrown.
\<close>

definition downloadAttempt :: "env \<Rightarrow> string \<Rightarrow> string \<Rightarrow> nat \<Rightarrow> world \<Rightarrow> (string + string) \<times> world" where
  "downloadAttempt E jobId filePath n w =
     (case download E n of
        Rejected m \<Rightarrow> (Inl m, w)
      | NoResponse \<Rightarrow> (Inl ''Empty response from Supabase storage'', w)
      | StorageError m \<Rightarrow> (Inl (''Supabase storage error: '' @ m), w)
      | NoData \<Rightarrow> (Inl ''No data received from storage'', w)
      | Unconvertible m \<Rightarrow> (Inl (''Failed to process downloaded data: '' @ m), w)
      | Payload buffer \<Rightarrow>
          if length buffer = 0 then (Inl ''Downloaded file is empty (0 bytes)'', w)
          else (case write_error E n of
                  Some m \<Rightarrow> (Inl (''Failed to write file to disk: '' @ m), w)
                | None \<Rightarrow>
                    (Inr (tempFilePath E jobId n filePath),
                     w\<lparr> files := (files w)(tempFilePath E jobId n filePath \<mapsto> buffer) \<rparr>)))"

definition maxRetries :: nat where
  "maxRetries = 3"

function downloadLoop :: "env \<Rightarrow> string \<Rightarrow> string \<Rightarrow> nat \<Rightarrow> world \<Rightarrow> (exn + string) \<times> world" where
  "downloadLoop E jobId filePath retries w =
     (if retries < maxRetries then
        (case downloadAttempt E jobId filePath retries (w\<lparr> attempts := attempts w + 1 \<rparr>) of
           (Inr path, w1) \<Rightarrow> (Inr path, w1)
         | (Inl errorMsg, w1) \<Rightarrow>
             (let w2 = log_error (''Download error: '' @ errorMsg) w1 in
              if maxRetries \<le> retries + 1
              then (Inl (Error (''Failed to download file after 3 attempts: '' @ errorMsg)), w2)
              else downloadLoop E jobId filePath (retries + 1)
                     (w2\<lparr> waits := waits w2 @ [1000 * 2 ^ (retries + 1)] \<rparr>)))
      else (Inl (Error ''Failed to download file after maximum retries''), w))"
  by pat_completeness auto
termination
  by (relation "measure (\<lambda>(E, jobId, filePath, retries, w). maxRetries - retries)") auto

definition downloadFile :: "env \<Rightarrow> string \<Rightarrow> string \<Rightarrow> world \<Rightarrow> (exn + string) \<times> world" where
  "downloadFile E jobId filePath w =
     (if trim filePath = [] then (Inl (Error (''Invalid file path: '' @ filePath)), w)
      else downloadLoop E jobId filePath 0 w)"

section \<open>The safety timer\<close>

text \<open>
  The callback of the timer sets the variable \<open>aborted\<close> of the handler and writes
  the failure to the store; a failure of that write is logged. \<open>timer_fires E ev\<close>
  runs the callback when \<open>ev\<close> is the moment the timer of \<open>E\<close> fires and the timer has
  not been cleared.
\<close>

definition safetyTimeout :: "env \<Rightarrow> world \<Rightarrow> world" where
  "safetyTimeout E w =
     (case updateJobStatus E Failed 0 (Some ''Processing timeout after 3 minutes'')
             (w\<lparr> aborted := True \<rparr>) of
        (Inl e, w1) \<Rightarrow> log_error ''Failed to update job status after timeout:'' w1
      | (Inr u, w1) \<Rightarrow> w1)"

definition timer_fires :: "env \<Rightarrow> timer_event \<Rightarrow> world \<Rightarrow> world" where
  "timer_fires E ev w = (if timer E = ev \<and> timeoutId w then safetyTimeout E w else w)"

section \<open>The streaming scanner\<close>

text \<open>
  \<open>readline_lines\<close> cuts the content of a file into lines as the \<open>readline\<close> interface
  does with \<open>crlfDelay: Infinity\<close>: a line ends at \<open>\n\<close>, at \<open>\r\n\<close> or at \<open>\r\<close>, and what
  follows the last line end is a line when it is not empty. The content of a file is
  its text, one code unit for each byte, so that the length of the text is the size
  of the file: this is a file of ASCII text, where decoding UTF-8 changes nothing.
\<close>

fun readline_lines :: "string \<Rightarrow> string \<Rightarrow> string list" where
  "readline_lines cur [] = (if cur = [] then [] else [cur])"
| "readline_lines cur (c # cs) =
     (if c = CHR 0x0A then cur # readline_lines [] cs
      else if c = CHR 0x0D then
        (case cs of
           d # ds \<Rightarrow> if d = CHR 0x0A then cur # readline_lines [] ds
                     else cur # readline_lines [] (d # ds)
         | [] \<Rightarrow> cur # readline_lines [] [])
      else readline_lines (cur @ [c]) cs)"

record scan =
  stats :: LogStats
  lineCount :: nat
  lastProgressUpdate :: int
  reportedProgress :: nat
  batchSize :: nat

definition BATCH_SIZE :: nat where
  "BATCH_SIZE = 1000"

text \<open>
  The loop \<open>for await (const line of rl)\<close> of \<open>processLogFile\<close>. \<open>aborted'\<close> is the
  parameter \<open>aborted\<close> of \<open>processLogFile\<close>: a boolean, passed by value when the handler
  calls the scanner, which the loop reads at every line and nothing assigns. The
  handler's own variable is the field \<open>aborted\<close> of the world, which the timer sets.
  The progress estimate \<open>Math.floor((lineCount / estimatedTotalLines) * 80) + 20\<close> is
  computed on integers.
\<close>

fun scanLines ::
  "env \<Rightarrow> (string \<Rightarrow> json option) \<Rightarrow> string list \<Rightarrow> bool \<Rightarrow> nat \<Rightarrow> string list \<Rightarrow> scan \<Rightarrow> world
     \<Rightarrow> (exn + scan) \<times> world" where
  "scanLines E jsonParse keywords aborted' estimatedTotalLines [] sc w =
     (Inr sc, timer_fires E (AfterLines (lineCount sc)) w)"
| "scanLines E jsonParse keywords aborted' estimatedTotalLines (line # rest) sc w =
     (let w1 = timer_fires E (AfterLines (lineCount sc)) w in
      if aborted' then (Inr sc, w1)
      else
        (let now = now_line E (lineCount sc + 1);
             sc1 = sc\<lparr> lineCount := lineCount sc + 1, batchSize := batchSize sc + 1,
                       stats := foldLine jsonParse keywords line (stats sc) \<rparr>
         in if BATCH_SIZE \<le> batchSize sc1 \<or> 5000 < now - lastProgressUpdate sc then
              (let currentProgress = (lineCount sc1 * 80) div estimatedTotalLines + 20 in
               if reportedProgress sc + 5 \<le> currentProgress \<or> 5000 < now - lastProgressUpdate sc
               then
                 (case updateJobStatus E Processing (min 99 (max 20 currentProgress)) None w1 of
                    (Inl e, w2) \<Rightarrow> (Inl e, log_error ''Error processing file for job'' w2)
                  | (Inr u, w2) \<Rightarrow>
                      scanLines E jsonParse keywords aborted' estimatedTotalLines rest
                        (sc1\<lparr> batchSize := 0, reportedProgress := currentProgress,
                              lastProgressUpdate := now \<rparr>) w2)
               else scanLines E jsonParse keywords aborted' estimatedTotalLines rest
                      (sc1\<lparr> batchSize := 0 \<rparr>) w1)
            else scanLines E jsonParse keywords aborted' estimatedTotalLines rest sc1 w1))"

definition processLogFile ::
  "env \<Rightarrow> (string \<Rightarrow> json option) \<Rightarrow> string list \<Rightarrow> string \<Rightarrow> bool \<Rightarrow> world
     \<Rightarrow> (exn + LogStats) \<times> world" where
  "processLogFile E jsonParse keywords path aborted' w =
     (case files w path of
        None \<Rightarrow> (Inl (Error (''File not found: '' @ path)), w)
      | Some content \<Rightarrow>
          and_then
            (scanLines E jsonParse keywords aborted' (max 100 (length content div 200))
               (readline_lines [] content)
               \<lparr> stats = init_stats keywords, lineCount = 0, lastProgressUpdate = now_loop E,
                 reportedProgress = 20, batchSize = 0 \<rparr> w)
            (\<lambda>sc w'. (Inr ((stats sc)\<lparr> processingTime := now_end E - now_start E \<rparr>), w')))"

section \<open>The job handler\<close>

text \<open>
  The data of a job. Its field \<open>timestamp\<close>, which the worker never reads, is left
  out (the name is that of a field of \<open>ParsedLog\<close>).
\<close>

record JobData =
  jobId :: string
  filePath :: string
  fileName :: string
  fileSize :: nat
  userId :: string

text \<open>
  \<open>cleanupJob\<close> clears the timer and, for a failed job, writes the failure to the
  store; whatever that throws is logged.
\<close>

definition cleanupJob :: "env \<Rightarrow> job_status \<Rightarrow> nat \<Rightarrow> string option \<Rightarrow> world \<Rightarrow> world" where
  "cleanupJob E st pr errorMsg w =
     (let w1 = w\<lparr> timeoutId := False \<rparr> in
      if st = Failed then
        (case updateJobStatus E Failed pr errorMsg w1 of
           (Inl e, w2) \<Rightarrow> log_error ''Cleanup error for job'' w2
         | (Inr u, w2) \<Rightarrow> w2)
      else w1)"

text \<open>
  The removal of the scratch file at the end of the \<open>try\<close> block: an \<open>unlinkSync\<close> that
  throws is logged.
\<close>

definition removeTempFile :: "env \<Rightarrow> string \<Rightarrow> world \<Rightarrow> world" where
  "removeTempFile E path w =
     (case files w path of
        None \<Rightarrow> w
      | Some content \<Rightarrow>
          (case unlink_error E of
             None \<Rightarrow> w\<lparr> files := (files w)(path := None) \<rparr>
           | Some m \<Rightarrow> log_error (''Error cleaning up temp file: '' @ m) w))"

text \<open>The \<open>try\<close> block of the handler.\<close>

definition jobHandler_try ::
  "env \<Rightarrow> (string \<Rightarrow> json option) \<Rightarrow> string list \<Rightarrow> JobData \<Rightarrow> world \<Rightarrow> (exn + LogStats) \<times> world" where
  "jobHandler_try E jsonParse keywords job w =
     and_then (updateJobStatus E Processing 1 None w) (\<lambda>u w1.
     and_then (downloadFile E (jobId job) (filePath job) w1) (\<lambda>path w2.
       case files w2 path of
         None \<Rightarrow> (Inl (Error (''ENOENT: no such file or directory, stat '' @ path)), w2)
       | Some content \<Rightarrow>
           if length content = 0 then (Inl (Error ''Downloaded file is empty''), w2)
           else
             and_then (updateJobStatus E Processing 10 None w2) (\<lambda>u w3.
             and_then (processLogFile E jsonParse keywords path
                         (aborted (timer_fires E BeforeScan w3)) (timer_fires E BeforeScan w3))
               (\<lambda>st w4.
             and_then (updateJobStats E st Completed 100 w4) (\<lambda>u w5.
               (Inr st, (removeTempFile E path w5)\<lparr> timeoutId := False \<rparr>))))))"

text \<open>
  The handler: it arms the timer, runs the \<open>try\<close> block, and in its \<open>catch\<close> logs the
  error, calls \<open>cleanupJob\<close> and throws the error again. \<open>Inr\<close> is the handler returning
  (the queue completes the job), \<open>Inl\<close> is the handler throwing (the queue fails it).
\<close>

definition jobHandler ::
  "env \<Rightarrow> (string \<Rightarrow> json option) \<Rightarrow> string list \<Rightarrow> JobData \<Rightarrow> world \<Rightarrow> (exn + LogStats) \<times> world" where
  "jobHandler E jsonParse keywords job w =
     (case jobHandler_try E jsonParse keywords job (w\<lparr> aborted := False, timeoutId := True \<rparr>) of
        (Inr st, w') \<Rightarrow> (Inr st, w')
      | (Inl e, w') \<Rightarrow>
          (Inl e, cleanupJob E Failed 0 (Some (error_text e))
                    (log_error ''Error processing job'' w')))"

section \<open>Properties and example executions\<close>


text \<open>Every key of \<open>ipAddresses\<close> is a string that \<open>isIPAddress\<close> accepts.\<close>

definition ip_inv :: "LogStats \<Rightarrow> bool" where
  "ip_inv st \<longleftrightarrow> (\<forall>ip \<in> dom (ipAddresses st). isIPAddress ip)"




text \<open>\<open>trimEnd s\<close> is \<open>s\<close> without the white space at its end.\<close>

definition trimEnd :: "string \<Rightarrow> string" where
  "trimEnd s = rev (dropWhile is_space (rev s))"

text \<open>
  \<open>brace_after_space s\<close>: somewhere in \<open>s\<close> a white space is directly followed by an
  opening brace.
\<close>

fun brace_after_space :: "string \<Rightarrow> bool" where
  "brace_after_space (a # b # cs) = ((is_space a \<and> b = CHR ''{'') \<or> brace_after_space (b # cs))"
| "brace_after_space cs = False"

text \<open>
  Stand-ins for \<open>JSON.parse\<close> in the examples. \<open>parse_example\<close> parses the two payload
  texts that the examples use, \<^verbatim>\<open>{}\<close> and \<open>payload_text\<close> (an object whose key \<open>ip\<close>
  holds the string \<open>10.0.0.1\<close>), and rejects every other text; the examples give it
  no other text that is JSON. \<open>no_json\<close> serves where no line has a brace, so that
  the parser is never called.
\<close>

definition payload_text :: string where
  "payload_text =
     ''{'' @ [CHR 0x22] @ ''ip'' @ [CHR 0x22] @ '':'' @ [CHR 0x22] @ ''10.0.0.1'' @ [CHR 0x22] @ ''}''"

definition parse_example :: "string \<Rightarrow> json option" where
  "parse_example s =
     (if s = ''{}'' then Some (JObject [])
      else if s = payload_text then Some (JObject [(''ip'', JString ''10.0.0.1'')])
      else None)"

definition no_json :: "string \<Rightarrow> json option" where
  "no_json s = None"

text \<open>
  An execution to try the handler on: the world before the handler starts, a job,
  and the environment in which every call succeeds, the timer never fires, the
  clock stands still and the blob store answers with \<open>content\<close>.
\<close>

definition world0 :: world where
  "world0 =
     \<lparr> aborted = False, timeoutId = False,
       row = \<lparr> row_status = Waiting, row_progress = 0, row_error = None, row_stats = None \<rparr>,
       store_calls = 0, files = Map.empty, attempts = 0, waits = [], console_error = [] \<rparr>"

definition job0 :: JobData where
  "job0 = \<lparr> jobId = ''7'', filePath = ''u1/app.log'', fileName = ''app.log'', fileSize = 37,
            userId = ''u1'' \<rparr>"

definition calm :: "string \<Rightarrow> env" where
  "calm content =
     \<lparr> store_error = (\<lambda>n. None), download = (\<lambda>n. Payload content),
       write_error = (\<lambda>n. None), unlink_error = None, timer = Never, tmpdir = ''/tmp'',
       stamp = (\<lambda>n. ''0''), now_start = 0, now_loop = 0, now_line = (\<lambda>n. 0), now_end = 0 \<rparr>"

definition scratch0 :: string where
  "scratch0 = ''/tmp/log-processor/job-7-0-app.log''"

section \<open>Proofs\<close>

subsection \<open>What the scan folds\<close>

lemma scanLines_aborted:
  "scanLines E jp kws True est lines sc w = (r, w') \<Longrightarrow> r = Inr sc"
  by (cases lines) (auto simp: Let_def)

lemma scanLines_fold:
  "scanLines E jp kws False est lines sc w = (Inr sc', w') \<Longrightarrow>
     stats sc' = fold (foldLine jp kws) lines (stats sc)"
proof (induction lines arbitrary: sc w)
  case Nil
  then show ?case by auto
next
  case (Cons line rest)
  then show ?case
    by (auto simp: Let_def split: if_splits prod.splits sum.splits)
qed

lemma processLogFile_stats:
  assumes "processLogFile E jp kws path ab w = (Inr st, w')"
  shows "\<exists>content. files w path = Some content \<and>
           st = (if ab then init_stats kws
                 else fold (foldLine jp kws) (readline_lines [] content) (init_stats kws))
                \<lparr> processingTime := now_end E - now_start E \<rparr>"
proof -
  from assms obtain content where c: "files w path = Some content"
    by (auto simp: processLogFile_def split: option.splits)
  define sc0 where "sc0 = \<lparr> stats = init_stats kws, lineCount = 0, lastProgressUpdate = now_loop E,
                 reportedProgress = 20, batchSize = 0 \<rparr>"
  from assms c obtain sc where
    sc: "scanLines E jp kws ab (max 100 (length content div 200)) (readline_lines [] content) sc0 w = (Inr sc, w')"
    and st: "st = (stats sc)\<lparr> processingTime := now_end E - now_start E \<rparr>"
    by (auto simp: processLogFile_def and_then_def sc0_def split: prod.splits sum.splits)
  have "stats sc = (if ab then init_stats kws
                 else fold (foldLine jp kws) (readline_lines [] content) (init_stats kws))"
  proof (cases ab)
    case True
    with sc have "(Inr sc :: exn + scan) = Inr sc0"
      using scanLines_aborted[of E jp kws _ _ sc0 w "Inr sc" w'] by simp
    then show ?thesis using True by (simp add: sc0_def)
  next
    case False
    with sc show ?thesis using scanLines_fold[of E jp kws _ _ sc0 w sc w'] by (simp add: sc0_def)
  qed
  with c st show ?thesis by simp
qed

subsection \<open>Fields that the IP extraction leaves alone\<close>

lemma count_ip_fields [simp]:
  "totalEntries (count_ip ip st) = totalEntries st"
  "errorCount (count_ip ip st) = errorCount st"
  "keywordMatches (count_ip ip st) = keywordMatches st"
  by (simp_all add: count_ip_def)

lemma extractIPs_fields:
  "totalEntries (extractIPs v st) = totalEntries st \<and> errorCount (extractIPs v st) = errorCount st \<and> keywordMatches (extractIPs v st) = keywordMatches st"
  "totalEntries (extractIPs_entries kvs st) = totalEntries st \<and> errorCount (extractIPs_entries kvs st) = errorCount st \<and> keywordMatches (extractIPs_entries kvs st) = keywordMatches st"
  "totalEntries (extractIPs_items vs st) = totalEntries st \<and> errorCount (extractIPs_items vs st) = errorCount st \<and> keywordMatches (extractIPs_items vs st) = keywordMatches st"
  "totalEntries (extractIPs_value v st) = totalEntries st \<and> errorCount (extractIPs_value v st) = errorCount st \<and> keywordMatches (extractIPs_value v st) = keywordMatches st"
  by (induction v st and kvs st and vs st and v st rule: extractIPs_extractIPs_entries_extractIPs_items_extractIPs_value.induct) simp_all

lemma fold_count_fields:
  "totalEntries (fold (\<lambda>ip st. if isIPAddress ip then count_ip ip st else st) ms st) = totalEntries st
    \<and> errorCount (fold (\<lambda>ip st. if isIPAddress ip then count_ip ip st else st) ms st) = errorCount st
    \<and> keywordMatches (fold (\<lambda>ip st. if isIPAddress ip then count_ip ip st else st) ms st) = keywordMatches st"
  by (induction ms arbitrary: st) simp_all

lemma extractIPsFromText_fields:
  "totalEntries (extractIPsFromText t st) = totalEntries st \<and> errorCount (extractIPsFromText t st) = errorCount st \<and> keywordMatches (extractIPsFromText t st) = keywordMatches st"
  by (simp add: extractIPsFromText_def fold_count_fields)

subsection \<open>The keyword loop\<close>

lemma keyword_loop:
  "totalEntries (fold (\<lambda>keyword st. if hit keyword
              then st\<lparr> keywordMatches := increment (keywordMatches st) keyword \<rparr> else st) kws st) = totalEntries st
   \<and> errorCount (fold (\<lambda>keyword st. if hit keyword
              then st\<lparr> keywordMatches := increment (keywordMatches st) keyword \<rparr> else st) kws st) = errorCount st
   \<and> ipAddresses (fold (\<lambda>keyword st. if hit keyword
              then st\<lparr> keywordMatches := increment (keywordMatches st) keyword \<rparr> else st) kws st) = ipAddresses st
   \<and> keywordMatches (fold (\<lambda>keyword st. if hit keyword
              then st\<lparr> keywordMatches := increment (keywordMatches st) keyword \<rparr> else st) kws st) k =
      map_option (\<lambda>c. c + (if hit k then count_list kws k else 0)) (keywordMatches st k)"
proof (induction kws arbitrary: st)
  case Nil
  show ?case by (simp add: option.map_ident)
next
  case (Cons a kws)
  show ?case
    by (simp add: Cons increment_def option.map_comp comp_def split: option.splits)
qed

lemma foldRecord_counts:
  "totalEntries (foldRecord kws p st) = totalEntries st + 1"
  "errorCount (foldRecord kws p st) =
     errorCount st + (if toLowerCase (level p) = ''error'' then 1 else 0)"
  "keywordMatches (foldRecord kws p st) k =
     map_option (\<lambda>c. c + (if includes_str (toLowerCase (message p)) k then count_list kws k else 0))
       (keywordMatches st k)"
  by (simp_all add: foldRecord_def Let_def extractIPsFromText_fields extractIPs_fields keyword_loop
        split: option.splits)


subsection \<open>Invariants of the accumulator\<close>






lemma ip_inv_init: "ip_inv (init_stats kws)"
  by (simp add: ip_inv_def init_stats_def)

lemma ip_inv_count_ip: "isIPAddress ip \<Longrightarrow> ip_inv st \<Longrightarrow> ip_inv (count_ip ip st)"
  by (auto simp: ip_inv_def count_ip_def)

lemma ip_inv_extractIPs:
  "ip_inv st \<Longrightarrow> ip_inv (extractIPs v st)"
  "ip_inv st \<Longrightarrow> ip_inv (extractIPs_entries kvs st)"
  "ip_inv st \<Longrightarrow> ip_inv (extractIPs_items vs st)"
  "ip_inv st \<Longrightarrow> ip_inv (extractIPs_value v st)"
  by (induction v st and kvs st and vs st and v st rule: extractIPs_extractIPs_entries_extractIPs_items_extractIPs_value.induct)
     (simp_all add: ip_inv_count_ip)

lemma ip_inv_extractIPsFromText: "ip_inv st \<Longrightarrow> ip_inv (extractIPsFromText t st)"
proof -
  have "ip_inv st \<Longrightarrow> ip_inv (fold (\<lambda>ip st. if isIPAddress ip then count_ip ip st else st) ms st)" for ms st
    by (induction ms arbitrary: st) (simp_all add: ip_inv_count_ip)
  then show "ip_inv st \<Longrightarrow> ?thesis" by (simp add: extractIPsFromText_def)
qed

lemma ip_inv_updates [simp]:
  "ip_inv (st\<lparr> totalEntries := a \<rparr>) = ip_inv st"
  "ip_inv (st\<lparr> errorCount := b \<rparr>) = ip_inv st"
  "ip_inv (fold (\<lambda>keyword st. if hit keyword
              then st\<lparr> keywordMatches := increment (keywordMatches st) keyword \<rparr> else st) kws st)
     = ip_inv st"
  by (simp_all add: ip_inv_def keyword_loop)

lemma ip_inv_foldRecord: "ip_inv st \<Longrightarrow> ip_inv (foldRecord kws p st)"
  unfolding foldRecord_def Let_def
  by (rule ip_inv_extractIPsFromText) (simp add: ip_inv_extractIPs(1) split: option.splits)

lemma ip_inv_foldLine: "ip_inv st \<Longrightarrow> ip_inv (foldLine jp kws line st)"
  by (simp add: foldLine_def ip_inv_foldRecord split: option.splits)

lemma ip_inv_fold: "ip_inv st \<Longrightarrow> ip_inv (fold (foldLine jp kws) lines st)"
  by (induction lines arbitrary: st) (simp_all add: ip_inv_foldLine)

lemma ip_inv_time: "ip_inv (st\<lparr> processingTime := t \<rparr>) = ip_inv st"
  by (simp add: ip_inv_def)




text \<open>
  Claim C10. At every point during and after a scan every key of \<open>ipAddresses\<close> is a
  string that \<open>isIPAddress\<close> accepts, that is, one that splits at the dots into exactly
  four parts, each of which \<open>parseInt\<close> reads as an integer from 0 to 255: the walk over
  the payload and the scan of the message text both ask \<open>isIPAddress\<close> before they
  count a string, so both preserve the invariant, and with them the fold of a line,
  of every prefix of the lines, and the statistics that \<open>processLogFile\<close> returns.
\<close>

theorem ip_keys_accepted:
  "ip_inv (init_stats kws)
   \<and> (ip_inv st \<longrightarrow> ip_inv (extractIPs v st))
   \<and> (ip_inv st \<longrightarrow> ip_inv (extractIPsFromText t st))
   \<and> (ip_inv st \<longrightarrow> ip_inv (foldLine jp kws line st))
   \<and> (\<forall>i. ip_inv (fold (foldLine jp kws) (take i lines) (init_stats kws)))
   \<and> (processLogFile E jp kws path ab w = (Inr st', w') \<longrightarrow> ip_inv st')
   \<and> (isIPAddress ip \<longleftrightarrow>
        length (split_on (CHR ''.'') ip) = 4 \<and>
        (\<forall>part \<in> set (split_on (CHR ''.'') ip).
           \<exists>num. parseInt part = Some num \<and> 0 \<le> num \<and> num \<le> 255))"
proof -
  have ip: "isIPAddress ip \<longleftrightarrow>
        length (split_on (CHR ''.'') ip) = 4 \<and>
        (\<forall>part \<in> set (split_on (CHR ''.'') ip).
           \<exists>num. parseInt part = Some num \<and> 0 \<le> num \<and> num \<le> 255)"
    by (auto simp: isIPAddress_def Let_def list_all_iff split: option.splits)
  have "ip_inv st'" if "processLogFile E jp kws path ab w = (Inr st', w')"
    using processLogFile_stats[OF that]
    by (auto simp: ip_inv_time ip_inv_init ip_inv_fold)
  then show ?thesis
    using ip
    by (simp add: ip_inv_init ip_inv_extractIPs(1) ip_inv_extractIPsFromText ip_inv_foldLine
          ip_inv_fold)
qed

theorem ip_keys_accepted_witness:
  "ip_inv (foldLine parse_example [''error''] (''[t] INFO from 10.0.0.2 '' @ payload_text)
             (init_stats [''error'']))
   \<and> ipAddresses (foldLine parse_example [''error''] (''[t] INFO from 10.0.0.2 '' @ payload_text)
                    (init_stats [''error''])) ''10.0.0.1'' = Some 1
   \<and> ipAddresses (foldLine parse_example [''error''] (''[t] INFO from 10.0.0.2 '' @ payload_text)
                    (init_stats [''error''])) ''10.0.0.2'' = Some 1"
proof -
  have "ipAddresses (foldLine parse_example [''error''] (''[t] INFO from 10.0.0.2 '' @ payload_text)
                    (init_stats [''error''])) ''10.0.0.1'' = Some 1"
    "ipAddresses (foldLine parse_example [''error''] (''[t] INFO from 10.0.0.2 '' @ payload_text)
                    (init_stats [''error''])) ''10.0.0.2'' = Some 1"
    by code_simp+
  with ip_keys_accepted[where kws = "[''error'']" and st = "init_stats [''error'']"
      and jp = parse_example and line = "''[t] INFO from 10.0.0.2 '' @ payload_text"]
  show ?thesis by simp
qed

subsection \<open>The keyword scenario\<close>

lemma parse_scenario_line:
  "parseLine jp ''[t] ERROR something timeout happened'' =
     Some \<lparr> timestamp = ''t'', level = ''ERROR'', message = ''something timeout happened'',
            jsonPayload = None \<rparr>"
  by code_simp

lemma scenario_facts:
  "toLowerCase ''ERROR'' = ''error''"
  "includes_str (toLowerCase ''something timeout happened'') ''error'' = False"
  "includes_str (toLowerCase ''something timeout happened'') ''timeout'' = True"
  "ipv4_regex_matches ''something timeout happened'' = []"
  by code_simp+

lemma foldLine_scenario:
  "foldLine jp [''error'', ''timeout''] ''[t] ERROR something timeout happened'' st =
     st\<lparr> totalEntries := totalEntries st + 1, errorCount := errorCount st + 1,
         keywordMatches := increment (keywordMatches st) ''timeout'' \<rparr>"
  by (simp add: foldLine_def parse_scenario_line foldRecord_def scenario_facts
        extractIPsFromText_def)

lemma fold_scenario:
  "keywordMatches st = [''error'' \<mapsto> 0, ''timeout'' \<mapsto> c] \<Longrightarrow>
   fold (foldLine jp [''error'', ''timeout'']) (replicate n ''[t] ERROR something timeout happened'') st =
     st\<lparr> totalEntries := totalEntries st + n, errorCount := errorCount st + n,
         keywordMatches := [''error'' \<mapsto> 0, ''timeout'' \<mapsto> c + n] \<rparr>"
proof (induction n arbitrary: st c)
  case 0
  then show ?case by simp
next
  case (Suc n)
  let ?st = "st\<lparr> totalEntries := totalEntries st + 1, errorCount := errorCount st + 1,
         keywordMatches := increment (keywordMatches st) ''timeout'' \<rparr>"
  have "keywordMatches ?st = [''error'' \<mapsto> 0, ''timeout'' \<mapsto> c + 1]"
    using Suc.prems by (auto simp: increment_def fun_eq_iff)
  from Suc.IH[OF this] show ?case
    by (simp add: foldLine_scenario)
qed

lemma init_stats_scenario:
  "init_stats [''error'', ''timeout''] =
     \<lparr> totalEntries = 0, errorCount = 0, keywordMatches = [''error'' \<mapsto> 0, ''timeout'' \<mapsto> 0],
       ipAddresses = Map.empty, processingTime = 0 \<rparr>"
  by (simp add: init_stats_def assign_def)

text \<open>
  Claim C8, as amended. A file whose lines are
  \<^verbatim>\<open>[t] ERROR something timeout happened\<close>, scanned with the monitored keywords
  \<open>error\<close> and \<open>timeout\<close>, gives per line one entry, one error and one match of
  \<open>timeout\<close>, and no match of \<open>error\<close>: after \<open>n\<close> lines \<open>errorCount = n\<close> and
  \<open>keywordMatches = {error: 0, timeout: n}\<close>. The keywords are looked for in the
  message, and the message of these lines is \<open>something timeout happened\<close>; the level
  is not part of it. In general \<open>errorCount\<close> grows by one when the level, in lower
  case, is \<open>error\<close>, and the counter of a keyword grows, once for each time the
  keyword is listed, when the keyword occurs in the message in lower case.
\<close>

theorem keyword_counting:
  "fold (foldLine jp [''error'', ''timeout''])
        (replicate n ''[t] ERROR something timeout happened'') (init_stats [''error'', ''timeout'']) =
     \<lparr> totalEntries = n, errorCount = n, keywordMatches = [''error'' \<mapsto> 0, ''timeout'' \<mapsto> n],
       ipAddresses = Map.empty, processingTime = 0 \<rparr>
   \<and> (files w path = Some content \<and>
        readline_lines [] content = replicate n ''[t] ERROR something timeout happened'' \<and>
        processLogFile E jp [''error'', ''timeout''] path False w = (Inr st, w') \<longrightarrow>
          totalEntries st = n \<and> errorCount st = n \<and>
          keywordMatches st = [''error'' \<mapsto> 0, ''timeout'' \<mapsto> n])
   \<and> errorCount (foldRecord kws p st0) =
        errorCount st0 + (if toLowerCase (level p) = ''error'' then 1 else 0)
   \<and> keywordMatches (foldRecord kws p st0) k =
        map_option (\<lambda>c. c + (if includes_str (toLowerCase (message p)) k then count_list kws k else 0))
          (keywordMatches st0 k)"
proof -
  have a: "fold (foldLine jp [''error'', ''timeout''])
        (replicate n ''[t] ERROR something timeout happened'') (init_stats [''error'', ''timeout'']) =
     \<lparr> totalEntries = n, errorCount = n, keywordMatches = [''error'' \<mapsto> 0, ''timeout'' \<mapsto> n],
       ipAddresses = Map.empty, processingTime = 0 \<rparr>"
    using fold_scenario[of "init_stats [''error'', ''timeout'']" 0 jp n]
    by (simp add: init_stats_scenario)
  have b: "totalEntries st = n \<and> errorCount st = n \<and>
          keywordMatches st = [''error'' \<mapsto> 0, ''timeout'' \<mapsto> n]"
    if "files w path = Some content"
      "readline_lines [] content = replicate n ''[t] ERROR something timeout happened''"
      "processLogFile E jp [''error'', ''timeout''] path False w = (Inr st, w')"
    using processLogFile_stats[OF that(3)] that(1,2) a by auto
  show ?thesis
    using a b by (simp add: foldRecord_counts)
qed

theorem keyword_counting_witness:
  "(case processLogFile (calm ''[t] ERROR something timeout happened'') no_json [''error'', ''timeout'']
           scratch0 False (world0\<lparr> files := [scratch0 \<mapsto> ''[t] ERROR something timeout happened''] \<rparr>) of
      (Inr st, w') \<Rightarrow> errorCount st = 1 \<and> keywordMatches st = [''error'' \<mapsto> 0, ''timeout'' \<mapsto> 1]
    | (Inl e, w') \<Rightarrow> False)"
proof -
  let ?w = "world0\<lparr> files := [scratch0 \<mapsto> ''[t] ERROR something timeout happened''] \<rparr>"
  let ?r = "processLogFile (calm ''[t] ERROR something timeout happened'') no_json [''error'', ''timeout'']
           scratch0 False ?w"
  have "\<not> isl (fst ?r)" by code_simp
  then obtain st w' where r: "?r = (Inr st, w')"
    by (cases ?r; cases "fst ?r") auto
  have f: "files ?w scratch0 = Some ''[t] ERROR something timeout happened''" by simp
  have l: "readline_lines [] ''[t] ERROR something timeout happened'' =
             replicate 1 ''[t] ERROR something timeout happened''" by code_simp
  from keyword_counting[of no_json 1 ?w scratch0 "''[t] ERROR something timeout happened''"
      "calm ''[t] ERROR something timeout happened''" st w'] f l r
  have "errorCount st = 1 \<and> keywordMatches st = [''error'' \<mapsto> 0, ''timeout'' \<mapsto> 1]"
    by simp
  with r show ?thesis by simp
qed

theorem keyword_scenario_counterexample:
  "(case jobHandler (calm ''[t] ERROR something timeout happened'') no_json [''error'', ''timeout'']
           job0 world0 of
      (Inr st, w') \<Rightarrow>
        errorCount st = 1 \<and> keywordMatches st ''timeout'' = Some 1 \<and>
        keywordMatches st ''error'' = Some 0 \<and> keywordMatches st ''error'' \<noteq> Some 1
    | (Inl e, w') \<Rightarrow> False)"
  by code_simp

text \<open>
  Claim C6. \<open>isIPAddress\<close> is to reject every string with a part that is not an integer
  from 0 to 255. It accepts \<open>1.2.3.4x\<close> and \<open>1.2.3.4 is down\<close>: \<open>parseInt\<close> reads the
  digits at the start of the last part and passes over the rest, and the test for
  \<open>NaN\<close> only rejects a part that starts with no digit. A payload string of that shape
  is counted as an address.
\<close>

theorem isIPAddress_accepts_trailing_text:
  "isIPAddress ''1.2.3.4x'' \<and> isIPAddress ''1.2.3.4 is down'' \<and>
   ipAddresses (extractIPs (JObject [(''note'', JString ''1.2.3.4 is down'')]) (init_stats []))
     ''1.2.3.4 is down'' = Some 1"
  by code_simp

subsection \<open>Retrieval\<close>

lemma downloadAttempt_frame:
  "downloadAttempt E j f n w = (r, w') \<Longrightarrow>
     attempts w' = attempts w \<and> waits w' = waits w \<and> console_error w' = console_error w \<and>
     store_calls w' = store_calls w \<and> row w' = row w \<and> aborted w' = aborted w \<and>
     timeoutId w' = timeoutId w"
  by (auto simp: downloadAttempt_def split: download_result.splits if_splits option.splits)

lemma downloadAttempt_result:
  "fst (downloadAttempt E j f n w) = fst (downloadAttempt E j f n v)"
  by (simp add: downloadAttempt_def split: download_result.splits option.splits)

lemma downloadAttempt_path:
  "downloadAttempt E j f n w = (Inr p, w') \<Longrightarrow>
     p = tempFilePath E j n f \<and> (\<exists>buffer. buffer \<noteq> [] \<and> download E n = Payload buffer \<and>
       files w' = (files w)(p \<mapsto> buffer))"
  by (auto simp: downloadAttempt_def split: download_result.splits if_splits option.splits)

declare downloadLoop.simps [simp del]

lemma downloadLoop_3: "downloadLoop E j f 3 w = (Inl (Error ''Failed to download file after maximum retries''), w)"
  by (subst downloadLoop.simps) (simp add: maxRetries_def)

lemma downloadLoop_2:
  "downloadLoop E j f (Suc (Suc 0)) w =
     (case downloadAttempt E j f (Suc (Suc 0)) (w\<lparr> attempts := attempts w + 1 \<rparr>) of
        (Inr path, w1) \<Rightarrow> (Inr path, w1)
      | (Inl errorMsg, w1) \<Rightarrow>
          (Inl (Error (''Failed to download file after 3 attempts: '' @ errorMsg)),
           log_error (''Download error: '' @ errorMsg) w1))"
  by (subst downloadLoop.simps) (simp add: maxRetries_def Let_def split: prod.splits sum.splits)

lemma downloadLoop_1:
  "downloadLoop E j f (Suc 0) w =
     (case downloadAttempt E j f (Suc 0) (w\<lparr> attempts := attempts w + 1 \<rparr>) of
        (Inr path, w1) \<Rightarrow> (Inr path, w1)
      | (Inl errorMsg, w1) \<Rightarrow>
          downloadLoop E j f (Suc (Suc 0))
            ((log_error (''Download error: '' @ errorMsg) w1)
               \<lparr> waits := waits (log_error (''Download error: '' @ errorMsg) w1) @ [4000] \<rparr>))"
  by (subst downloadLoop.simps) (simp add: maxRetries_def Let_def split: prod.splits sum.splits)

lemma downloadLoop_0:
  "downloadLoop E j f 0 w =
     (case downloadAttempt E j f 0 (w\<lparr> attempts := attempts w + 1 \<rparr>) of
        (Inr path, w1) \<Rightarrow> (Inr path, w1)
      | (Inl errorMsg, w1) \<Rightarrow>
          downloadLoop E j f (Suc 0)
            ((log_error (''Download error: '' @ errorMsg) w1)
               \<lparr> waits := waits (log_error (''Download error: '' @ errorMsg) w1) @ [2000] \<rparr>))"
  by (subst downloadLoop.simps) (simp add: maxRetries_def Let_def split: prod.splits sum.splits)


lemma downloadFile_cases:
  assumes "downloadFile E j f w = (r, w')"
  obtains
    (invalid) "trim f = []" "r = Inl (Error (''Invalid file path: '' @ f))" "w' = w"
  | (first) p where "trim f \<noteq> []" "r = Inr p" "fst (downloadAttempt E j f 0 w) = Inr p"
      "attempts w' = attempts w + 1" "waits w' = waits w"
  | (second) m0 p where "trim f \<noteq> []" "r = Inr p" "fst (downloadAttempt E j f 0 w) = Inl m0"
      "fst (downloadAttempt E j f 1 w) = Inr p"
      "attempts w' = attempts w + 2" "waits w' = waits w @ [2000]"
  | (third) m0 m1 p where "trim f \<noteq> []" "r = Inr p" "fst (downloadAttempt E j f 0 w) = Inl m0"
      "fst (downloadAttempt E j f 1 w) = Inl m1" "fst (downloadAttempt E j f 2 w) = Inr p"
      "attempts w' = attempts w + 3" "waits w' = waits w @ [2000, 4000]"
  | (exhausted) m0 m1 m2 where "trim f \<noteq> []" "fst (downloadAttempt E j f 0 w) = Inl m0"
      "fst (downloadAttempt E j f 1 w) = Inl m1" "fst (downloadAttempt E j f 2 w) = Inl m2"
      "r = Inl (Error (''Failed to download file after 3 attempts: '' @ m2))"
      "attempts w' = attempts w + 3" "waits w' = waits w @ [2000, 4000]"
proof (cases "trim f = []")
  case True
  with assms show ?thesis by (intro invalid) (auto simp: downloadFile_def)
next
  case False
  with assms have loop: "downloadLoop E j f 0 w = (r, w')" by (simp add: downloadFile_def)
  let ?w0 = "w\<lparr> attempts := attempts w + 1 \<rparr>"
  obtain r0 w1 where a0: "downloadAttempt E j f 0 ?w0 = (r0, w1)" by (cases "downloadAttempt E j f 0 ?w0")
  have r0: "fst (downloadAttempt E j f 0 w) = r0"
    using a0 downloadAttempt_result[of E j f 0 w ?w0] by simp
  note f0 = downloadAttempt_frame[OF a0]
  show ?thesis
  proof (cases r0)
    case (Inr p)
    with loop a0 have "r = Inr p" "w' = w1" by (simp_all add: downloadLoop_0)
    with f0 r0 Inr False show ?thesis by (intro first[of p]) simp_all
  next
    case (Inl m0)
    let ?w1 = "(log_error (''Download error: '' @ m0) w1)
               \<lparr> waits := waits (log_error (''Download error: '' @ m0) w1) @ [2000] \<rparr>"
    let ?w1' = "?w1\<lparr> attempts := attempts ?w1 + 1 \<rparr>"
    from loop a0 Inl have loop1: "downloadLoop E j f (Suc 0) ?w1 = (r, w')" by (simp add: downloadLoop_0)
    obtain r1 w2 where a1: "downloadAttempt E j f (Suc 0) ?w1' = (r1, w2)" by (cases "downloadAttempt E j f (Suc 0) ?w1'")
    have r1: "fst (downloadAttempt E j f (Suc 0) w) = r1"
      using a1 downloadAttempt_result[of E j f "Suc 0" w ?w1'] by simp
    note f1 = downloadAttempt_frame[OF a1]
    show ?thesis
    proof (cases r1)
      case (Inr p)
      with loop1 a1 have "r = Inr p" "w' = w2" by (simp_all add: downloadLoop_1)
      with f0 f1 r0 r1 Inr Inl False show ?thesis
        by (intro second[of p m0]) (simp_all add: log_error_def numeral_2_eq_2)
    next
      case Inl1: (Inl m1)
      let ?w2 = "(log_error (''Download error: '' @ m1) w2)
               \<lparr> waits := waits (log_error (''Download error: '' @ m1) w2) @ [4000] \<rparr>"
      let ?w2' = "?w2\<lparr> attempts := attempts ?w2 + 1 \<rparr>"
      from loop1 a1 Inl1 have loop2: "downloadLoop E j f (Suc (Suc 0)) ?w2 = (r, w')" by (simp add: downloadLoop_1)
      obtain r2 w3 where a2: "downloadAttempt E j f (Suc (Suc 0)) ?w2' = (r2, w3)" by (cases "downloadAttempt E j f (Suc (Suc 0)) ?w2'")
      have r2: "fst (downloadAttempt E j f (Suc (Suc 0)) w) = r2"
        using a2 downloadAttempt_result[of E j f "Suc (Suc 0)" w ?w2'] by simp
      note f2 = downloadAttempt_frame[OF a2]
      show ?thesis
      proof (cases r2)
        case (Inr p)
        with loop2 a2 have "r = Inr p" "w' = w3" by (simp_all add: downloadLoop_2)
        with f0 f1 f2 r0 r1 r2 Inr Inl Inl1 False show ?thesis
          by (intro third[of p m0 m1]) (simp_all add: log_error_def numeral_2_eq_2)
      next
        case Inl2: (Inl m2)
        with loop2 a2 have "r = Inl (Error (''Failed to download file after 3 attempts: '' @ m2))"
          "w' = log_error (''Download error: '' @ m2) w3" by (simp_all add: downloadLoop_2)
        with f0 f1 f2 r0 r1 r2 Inl Inl1 Inl2 False show ?thesis
          by (intro exhausted[of m0 m1 m2]) (simp_all add: log_error_def numeral_2_eq_2)
      qed
    qed
  qed
qed


text \<open>
  Claim C5. A retrieval makes at most 3 attempts. After the \<open>k\<close>-th failed attempt it
  waits \<open>1000 * 2 ^ k\<close> milliseconds before the next one, so the waits of a retrieval
  that made \<open>a\<close> attempts are those for \<open>k = 1, ..., a - 1\<close>; when two attempts fail and
  the third succeeds these are the two waits 2000 and 4000, and the result is the
  local path. When all attempts are used up the error thrown is the one message
  \<open>Failed to download file after 3 attempts: \<close> followed by the cause of the last
  failure.
\<close>

theorem retrieve_retry_policy:
  assumes "downloadFile E jid fpath w = (r, w')"
  shows "\<exists>a \<le> 3.
           attempts w' = attempts w + a
         \<and> waits w' = waits w @ map (\<lambda>k. 1000 * 2 ^ k) [1..<a]
         \<and> (\<forall>i. i + 1 < a \<longrightarrow> isl (fst (downloadAttempt E jid fpath i w)))
         \<and> (\<forall>p. r = Inr p \<longrightarrow> 0 < a \<and> fst (downloadAttempt E jid fpath (a - 1) w) = Inr p)
         \<and> (\<forall>e. r = Inl e \<and> trim fpath \<noteq> [] \<longrightarrow>
               a = 3 \<and>
               (\<exists>cause. fst (downloadAttempt E jid fpath 2 w) = Inl cause \<and>
                  e = Error (''Failed to download file after 3 attempts: '' @ cause)))
         \<and> (trim fpath \<noteq> [] \<and> isl (fst (downloadAttempt E jid fpath 0 w)) \<and>
              isl (fst (downloadAttempt E jid fpath 1 w)) \<and>
              \<not> isl (fst (downloadAttempt E jid fpath 2 w)) \<longrightarrow>
               a = 3 \<and> waits w' = waits w @ [2000, 4000] \<and>
               r = Inr (tempFilePath E jid 2 fpath))"
  using assms
proof (cases rule: downloadFile_cases)
  case invalid
  then show ?thesis by (intro exI[of _ 0]) simp
next
  case (first p)
  then show ?thesis by (intro exI[of _ 1]) simp
next
  case (second m0 p)
  have "isl (fst (downloadAttempt E jid fpath i w))" if "i + 1 < 2" for i
  proof -
    from that have "i = 0" by simp
    with second(3) show ?thesis by simp
  qed
  with second show ?thesis by (intro exI[of _ 2]) (simp add: upt_rec)
next
  case (third m0 m1 p)
  have pre: "isl (fst (downloadAttempt E jid fpath i w))" if "i + 1 < 3" for i
  proof -
    from that have "i = 0 \<or> i = 1" by auto
    with third(3,4) show ?thesis by auto
  qed
  obtain w2 where "downloadAttempt E jid fpath 2 w = (Inr p, w2)"
    using third(5) by (cases "downloadAttempt E jid fpath 2 w") simp
  then have "p = tempFilePath E jid 2 fpath" using downloadAttempt_path by blast
  with third pre show ?thesis by (intro exI[of _ 3]) (simp add: upt_rec)
next
  case (exhausted m0 m1 m2)
  have pre: "isl (fst (downloadAttempt E jid fpath i w))" if "i + 1 < 3" for i
  proof -
    from that have "i = 0 \<or> i = 1" by auto
    with exhausted(2,3) show ?thesis by auto
  qed
  with exhausted show ?thesis by (intro exI[of _ 3]) (simp add: upt_rec)
qed

theorem retrieve_retry_policy_witness:
  "(case downloadFile
           ((calm ''[t] INFO up'')\<lparr> download := (\<lambda>n. if n = 0 then NoResponse
                                         else if n = 1 then StorageError ''busy''
                                         else Payload ''[t] INFO up'') \<rparr>)
           ''7'' ''u1/app.log'' world0 of
      (r, w') \<Rightarrow> r = Inr ''/tmp/log-processor/job-7-0-app.log'' \<and> attempts w' = 3 \<and>
                  waits w' = [2000, 4000])"
proof -
  let ?E = "(calm ''[t] INFO up'')\<lparr> download := (\<lambda>n. if n = 0 then NoResponse
                                         else if n = 1 then StorageError ''busy''
                                         else Payload ''[t] INFO up'') \<rparr>"
  obtain r w' where d: "downloadFile ?E ''7'' ''u1/app.log'' world0 = (r, w')"
    by (cases "downloadFile ?E ''7'' ''u1/app.log'' world0")
  have h: "trim ''u1/app.log'' \<noteq> []"
    "isl (fst (downloadAttempt ?E ''7'' ''u1/app.log'' 0 world0))"
    "isl (fst (downloadAttempt ?E ''7'' ''u1/app.log'' 1 world0))"
    "\<not> isl (fst (downloadAttempt ?E ''7'' ''u1/app.log'' 2 world0))"
    "tempFilePath ?E ''7'' 2 ''u1/app.log'' = ''/tmp/log-processor/job-7-0-app.log''"
    "attempts world0 = 0" "waits world0 = []"
    by code_simp+
  from retrieve_retry_policy[OF d] obtain a where
    "attempts w' = attempts world0 + a"
    "trim ''u1/app.log'' \<noteq> [] \<and> isl (fst (downloadAttempt ?E ''7'' ''u1/app.log'' 0 world0)) \<and>
       isl (fst (downloadAttempt ?E ''7'' ''u1/app.log'' 1 world0)) \<and>
       \<not> isl (fst (downloadAttempt ?E ''7'' ''u1/app.log'' 2 world0)) \<longrightarrow>
         a = 3 \<and> waits w' = waits world0 @ [2000, 4000] \<and>
         r = Inr (tempFilePath ?E ''7'' 2 ''u1/app.log'')"
    by blast
  with h have "r = Inr ''/tmp/log-processor/job-7-0-app.log'' \<and> attempts w' = 3 \<and> waits w' = [2000, 4000]"
    by simp
  with d show ?thesis by simp
qed

subsection \<open>The handler\<close>

lemma updateJobStatus_ok:
  "store_error E (store_calls w) = None \<Longrightarrow>
     \<exists>w'. updateJobStatus E st pr err w = (Inr (), w') \<and> store_calls w' = store_calls w + 1 \<and>
          row_status (row w') = st \<and> row_progress (row w') = pr \<and>
          files w' = files w \<and> aborted w' = aborted w \<and> timeoutId w' = timeoutId w \<and>
          attempts w' = attempts w \<and> waits w' = waits w \<and> console_error w' = console_error w"
  by (simp add: updateJobStatus_def Let_def)




lemma jobHandler_result:
  "fst (jobHandler E jp kws job w) =
     fst (jobHandler_try E jp kws job (w\<lparr> aborted := False, timeoutId := True \<rparr>))"
  by (simp add: jobHandler_def split: prod.splits sum.splits)
































text \<open>
  Claim C3. The scratch file is to be removed on the failure path as on the success
  path. The handler removes it only at the end of its \<open>try\<close> block; \<open>cleanupJob\<close>, which
  the \<open>catch\<close> block calls, does not. Here the retrieval and the scan succeed and the
  write of the final statistics fails: the handler throws and the scratch file is
  still there. With no failing write the same job completes and the file is gone.
\<close>

theorem scratch_file_left_on_failure:
  "(case jobHandler ((calm ''[t] INFO up'')\<lparr> store_error := (\<lambda>n. if n = 2 then Some ''db down'' else None) \<rparr>)
           no_json [''error''] job0 world0 of
      (Inl e, w') \<Rightarrow> e = StoreError ''db down'' \<and> files w' scratch0 = Some ''[t] INFO up''
    | (Inr stf, w') \<Rightarrow> False)
   \<and> (case jobHandler (calm ''[t] INFO up'') no_json [''error''] job0 world0 of
        (Inl e, w') \<Rightarrow> False
      | (Inr stf, w') \<Rightarrow> files w' scratch0 = None)"
  by code_simp

text \<open>
  Claim C1. When the timer fires during the scan, the scanner is to observe the
  cancellation at the next line and return the partial statistics. The timer sets
  the handler's variable, but the scanner was given the value that variable had
  when it was called: here the file has two lines, the timer fires after the first,
  the scan goes on to the second, and the handler writes the job as \<open>completed\<close> at
  100 percent over the failure that the timer wrote.
\<close>

theorem timeout_does_not_stop_scan:
  "(case jobHandler ((calm (''[t] ERROR one'' @ [CHR 0x0A] @ ''[t] ERROR two''))\<lparr> timer := AfterLines 1 \<rparr>)
           no_json [''error''] job0 world0 of
      (Inl e, w') \<Rightarrow> False
    | (Inr stf, w') \<Rightarrow>
        aborted w' \<and> totalEntries stf = 2 \<and> row_status (row w') = Completed \<and>
        row_progress (row w') = 100 \<and>
        row_error (row w') = Some ''Processing timeout after 3 minutes'' \<and>
        map_option totalEntries (row_stats (row w')) = Some 2)"
  by code_simp

lemma attempt_empty:
  "download E n = Payload [] \<Longrightarrow>
     downloadAttempt E j f n w = (Inl ''Downloaded file is empty (0 bytes)'', w)"
  by (simp add: downloadAttempt_def)

text \<open>
  Claim C4, as amended. A fetched file of zero bytes fails that attempt as any other
  failure of the retrieval does: it is retried after the same wait and counts toward
  the 3 attempts. It ends the job only when the attempts are used up: when all three
  fetch zero bytes the retrieval, and with it the job, fails with
  \<open>Failed to download file after 3 attempts: Downloaded file is empty (0 bytes)\<close>; when
  a later attempt fetches a file that is not empty the retrieval succeeds.
\<close>

theorem empty_file_is_retried:
  "(download E n = Payload [] \<longrightarrow>
      downloadAttempt E jid fpath n w = (Inl ''Downloaded file is empty (0 bytes)'', w))
   \<and> (trim fpath \<noteq> [] \<and> download E 0 = Payload [] \<and> download E 1 = Payload [] \<and>
        download E 2 = Payload [] \<longrightarrow>
        (\<exists>w'. downloadFile E jid fpath w =
                 (Inl (Error (''Failed to download file after 3 attempts: '' @
                              ''Downloaded file is empty (0 bytes)'')), w') \<and>
              attempts w' = attempts w + 3 \<and> waits w' = waits w @ [2000, 4000]))
   \<and> (trim (filePath job) \<noteq> [] \<and> download E 0 = Payload [] \<and> download E 1 = Payload [] \<and>
        download E 2 = Payload [] \<and> store_error E (store_calls w) = None \<longrightarrow>
        fst (jobHandler E jp kws job w) =
          Inl (Error (''Failed to download file after 3 attempts: '' @
                      ''Downloaded file is empty (0 bytes)'')))
   \<and> (trim fpath \<noteq> [] \<and> download E 0 = Payload [] \<and> download E 1 = Payload buffer \<and>
        buffer \<noteq> [] \<and> write_error E 1 = None \<longrightarrow>
        (\<exists>w'. downloadFile E jid fpath w = (Inr (tempFilePath E jid 1 fpath), w') \<and>
              attempts w' = attempts w + 2 \<and> waits w' = waits w @ [2000] \<and>
              files w' (tempFilePath E jid 1 fpath) = Some buffer))"
proof -
  have three: "\<exists>w'. downloadFile E j f v =
                 (Inl (Error (''Failed to download file after 3 attempts: '' @
                              ''Downloaded file is empty (0 bytes)'')), w') \<and>
              attempts w' = attempts v + 3 \<and> waits w' = waits v @ [2000, 4000]"
    if "trim f \<noteq> []" "download E 0 = Payload []" "download E 1 = Payload []"
       "download E 2 = Payload []" for j f v
  proof -
    obtain r w' where d: "downloadFile E j f v = (r, w')" by (cases "downloadFile E j f v")
    from d have "r = Inl (Error (''Failed to download file after 3 attempts: '' @
                              ''Downloaded file is empty (0 bytes)'')) \<and>
              attempts w' = attempts v + 3 \<and> waits w' = waits v @ [2000, 4000]"
      using that by (cases rule: downloadFile_cases) (simp_all add: attempt_empty)
    with d show ?thesis by simp
  qed
  have job: "fst (jobHandler E jp kws job w) =
          Inl (Error (''Failed to download file after 3 attempts: '' @
                      ''Downloaded file is empty (0 bytes)''))"
    if "trim (filePath job) \<noteq> []" "download E 0 = Payload []" "download E 1 = Payload []"
       "download E 2 = Payload []" "store_error E (store_calls w) = None"
  proof -
    let ?w0 = "w\<lparr> aborted := False, timeoutId := True \<rparr>"
    have "store_error E (store_calls ?w0) = None" using that(5) by simp
    from updateJobStatus_ok[OF this, of Processing 1 None] obtain w1 where
      u: "updateJobStatus E Processing 1 None ?w0 = (Inr (), w1)" by blast
    from three[OF that(1-4), of "jobId job" w1] obtain w2 where
      "downloadFile E (jobId job) (filePath job) w1 =
         (Inl (Error (''Failed to download file after 3 attempts: '' @
                              ''Downloaded file is empty (0 bytes)'')), w2)" by blast
    with u show ?thesis
      by (simp add: jobHandler_result jobHandler_try_def and_then_def)
  qed
  have two: "\<exists>w'. downloadFile E jid fpath w = (Inr (tempFilePath E jid 1 fpath), w') \<and>
              attempts w' = attempts w + 2 \<and> waits w' = waits w @ [2000] \<and>
              files w' (tempFilePath E jid 1 fpath) = Some buffer"
    if "trim fpath \<noteq> []" "download E 0 = Payload []" "download E 1 = Payload buffer"
       "buffer \<noteq> []" "write_error E 1 = None"
  proof -
    have "downloadFile E jid fpath w = downloadLoop E jid fpath 0 w"
      using that(1) by (simp add: downloadFile_def)
    then show ?thesis
      using that
      by (simp add: downloadLoop_0 downloadLoop_1 attempt_empty downloadAttempt_def log_error_def)
  qed
  show ?thesis
    using three[of fpath jid w] job two by (simp add: attempt_empty)
qed

theorem empty_file_is_retried_witness:
  "fst (jobHandler ((calm ''[t] INFO up'')\<lparr> download := (\<lambda>n. Payload []) \<rparr>) no_json [''error''] job0 world0)
     = Inl (Error ''Failed to download file after 3 attempts: Downloaded file is empty (0 bytes)'')"
proof -
  let ?E = "(calm ''[t] INFO up'')\<lparr> download := (\<lambda>n. Payload []) \<rparr>"
  have "trim (filePath job0) \<noteq> []" "download ?E 0 = Payload []" "download ?E 1 = Payload []"
    "download ?E 2 = Payload []" "store_error ?E (store_calls world0) = None"
    by code_simp+
  with empty_file_is_retried[where E = ?E and job = job0 and w = world0 and jp = no_json
      and kws = "[''error'']"]
  show ?thesis by simp
qed

theorem empty_file_counterexample:
  "(case jobHandler ((calm ''[t] INFO up'')\<lparr> download := (\<lambda>n. if n = 0 then Payload [] else Payload ''[t] INFO up'') \<rparr>)
           no_json [''error''] job0 world0 of
      (Inl e, w') \<Rightarrow> False
    | (Inr stf, w') \<Rightarrow> totalEntries stf = 1 \<and> attempts w' = 2 \<and> waits w' = [2000] \<and>
                        row_status (row w') = Completed)"
  by code_simp

subsection \<open>The quantifiers\<close>

lemma lazy_star_hit: "k acc s = Some r \<Longrightarrow> lazy_star P k acc s = Some r"
  by (cases s) simp_all

lemma lazy_star_skip:
  "\<forall>c \<in> set xs. P c \<Longrightarrow>
   (\<And>ys zs. xs = ys @ zs \<Longrightarrow> zs \<noteq> [] \<Longrightarrow> k (acc @ ys) (zs @ rest) = None) \<Longrightarrow>
   lazy_star P k acc (xs @ rest) = lazy_star P k (acc @ xs) rest"
proof (induction xs arbitrary: acc)
  case Nil
  then show ?case by simp
next
  case (Cons x xs)
  have "k acc ((x # xs) @ rest) = None"
    using Cons.prems(2)[of "[]" "x # xs"] by simp
  moreover have "lazy_star P k (acc @ [x]) (xs @ rest) = lazy_star P k ((acc @ [x]) @ xs) rest"
  proof (rule Cons.IH)
    show "\<forall>c \<in> set xs. P c" using Cons.prems(1) by simp
    show "k ((acc @ [x]) @ ys) (zs @ rest) = None" if "xs = ys @ zs" "zs \<noteq> []" for ys zs
      using Cons.prems(2)[of "x # ys" zs] that by simp
  qed
  ultimately show ?case using Cons.prems(1) by simp
qed

lemma lazy_star_SomeD:
  "lazy_star P k acc s = Some r \<Longrightarrow>
     \<exists>xs rest. s = xs @ rest \<and> (\<forall>c \<in> set xs. P c) \<and> k (acc @ xs) rest = Some r"
proof (induction s arbitrary: acc)
  case Nil
  then show ?case by simp
next
  case (Cons c cs)
  show ?case
  proof (cases "k acc (c # cs)")
    case (Some r')
    with Cons.prems have "k (acc @ []) (c # cs) = Some r" by simp
    then show ?thesis by (intro exI[of _ "[]"] exI[of _ "c # cs"]) simp
  next
    case None
    with Cons.prems have pc: "P c" and "lazy_star P k (acc @ [c]) cs = Some r"
      by (simp_all split: if_splits)
    from Cons.IH[OF this(2)] obtain xs rest where
      "cs = xs @ rest" "\<forall>c \<in> set xs. P c" "k ((acc @ [c]) @ xs) rest = Some r" by blast
    with pc show ?thesis by (intro exI[of _ "c # xs"] exI[of _ rest]) simp
  qed
qed

lemma greedy_star_all:
  "\<forall>c \<in> set xs. P c \<Longrightarrow> rest = [] \<or> \<not> P (hd rest) \<Longrightarrow> k (acc @ xs) rest = Some r \<Longrightarrow>
     greedy_star P k acc (xs @ rest) = Some r"
proof (induction xs arbitrary: acc)
  case Nil
  then show ?case by (cases rest) auto
next
  case (Cons x xs)
  from Cons.prems have "greedy_star P k (acc @ [x]) (xs @ rest) = Some r"
    by (intro Cons.IH) simp_all
  with Cons.prems(1) show ?case by simp
qed

lemma greedy_star_last:
  "\<forall>c \<in> set xs. P c \<Longrightarrow> P c \<Longrightarrow> k (acc @ xs @ [c]) [] = None \<Longrightarrow>
   k (acc @ xs) [c] = Some r \<Longrightarrow> greedy_star P k acc (xs @ [c]) = Some r"
proof (induction xs arbitrary: acc)
  case Nil
  then show ?case by simp
next
  case (Cons x xs)
  from Cons.prems have "greedy_star P k (acc @ [x]) (xs @ [c]) = Some r"
    by (intro Cons.IH) simp_all
  with Cons.prems(1) show ?case by simp
qed

lemma greedy_star_SomeD:
  "greedy_star P k acc s = Some r \<Longrightarrow>
     \<exists>xs rest. s = xs @ rest \<and> (\<forall>c \<in> set xs. P c) \<and> k (acc @ xs) rest = Some r"
proof (induction s arbitrary: acc)
  case Nil
  then show ?case by simp
next
  case (Cons c cs)
  show ?case
  proof (cases "P c \<and> greedy_star P k (acc @ [c]) cs \<noteq> None")
    case True
    with Cons.prems have "greedy_star P k (acc @ [c]) cs = Some r" by auto
    from Cons.IH[OF this] obtain xs rest where
      "cs = xs @ rest" "\<forall>c \<in> set xs. P c" "k ((acc @ [c]) @ xs) rest = Some r" by blast
    with True show ?thesis by (intro exI[of _ "c # xs"] exI[of _ rest]) simp
  next
    case False
    with Cons.prems have "k (acc @ []) (c # cs) = Some r" by (auto split: if_splits)
    then show ?thesis by (intro exI[of _ "[]"] exI[of _ "c # cs"]) simp
  qed
qed

lemma greedy_plus_run:
  "xs \<noteq> [] \<Longrightarrow> \<forall>c \<in> set xs. P c \<Longrightarrow> rest = [] \<or> \<not> P (hd rest) \<Longrightarrow> k xs rest = Some r \<Longrightarrow>
     greedy_plus P k (xs @ rest) = Some r"
proof (cases xs)
  case Nil
  then show "xs \<noteq> [] \<Longrightarrow> ?thesis" by simp
next
  case (Cons x xs')
  assume "\<forall>c \<in> set xs. P c" "rest = [] \<or> \<not> P (hd rest)" "k xs rest = Some r"
  with Cons show ?thesis
    using greedy_star_all[of xs' P rest k "[x]" r] by (simp add: greedy_plus_def)
qed

lemma greedy_plus_SomeD:
  "greedy_plus P k s = Some r \<Longrightarrow>
     \<exists>xs rest. s = xs @ rest \<and> xs \<noteq> [] \<and> (\<forall>c \<in> set xs. P c) \<and> k xs rest = Some r"
proof (cases s)
  case Nil
  then show "greedy_plus P k s = Some r \<Longrightarrow> ?thesis" by (simp add: greedy_plus_def)
next
  case (Cons c cs)
  assume "greedy_plus P k s = Some r"
  with Cons have pc: "P c" and "greedy_star P k [c] cs = Some r"
    by (simp_all add: greedy_plus_def split: if_splits)
  from greedy_star_SomeD[OF this(2)] obtain xs rest where
    "cs = xs @ rest" "\<forall>c \<in> set xs. P c" "k ([c] @ xs) rest = Some r" by blast
  with pc Cons show ?thesis by (intro exI[of _ "c # xs"] exI[of _ rest]) simp
qed

lemma literal_Some: "literal x k s = Some r \<longleftrightarrow> (\<exists>rest. s = x # rest \<and> k rest = Some r)"
  by (cases s) (auto simp: literal_def)

lemma literal_Cons: "literal x k (x # rest) = k rest"
  by (simp add: literal_def)


subsection \<open>The pattern of a log line\<close>

lemma class_facts:
  "is_word c \<Longrightarrow> \<not> is_space c"
  "is_space c \<Longrightarrow> \<not> is_word c"
  "\<not> is_space (CHR ''{'')"
  "dot (CHR ''}'')"
  by (auto simp: is_word_def is_space_def dot_def is_line_terminator_def)

lemma log_regex_json_match:
  assumes "ws \<noteq> []" "\<forall>c \<in> set ws. is_space c" "\<forall>c \<in> set body. dot c"
  shows "log_regex_json (ws @ ''{'' @ body @ ''}'') = Some (''{'' @ body @ ''}'')"
proof -
  let ?k = "\<lambda>body. literal (CHR ''}'') (\<lambda>r. if r = [] then Some (''{'' @ body @ ''}'') else None)"
  have "greedy_star dot ?k [] (body @ [CHR ''}'']) = Some (''{'' @ body @ ''}'')"
    using assms(3) by (intro greedy_star_last) (simp_all add: class_facts literal_def)
  then have "literal (CHR ''{'') (greedy_star dot ?k []) (CHR ''{'' # body @ ''}'') =
               Some (''{'' @ body @ ''}'')"
    by (simp add: literal_Cons)
  then have "greedy_plus is_space (\<lambda>_. literal (CHR ''{'') (greedy_star dot ?k []))
               (ws @ (CHR ''{'' # body @ ''}'')) = Some (''{'' @ body @ ''}'')"
    using assms(1,2) by (intro greedy_plus_run) (simp_all add: class_facts)
  then show ?thesis by (simp add: log_regex_json_def)
qed

lemma log_regex_json_SomeD:
  assumes "log_regex_json s = Some js"
  shows "\<exists>ws body. s = ws @ ''{'' @ body @ ''}'' \<and> ws \<noteq> [] \<and> (\<forall>c \<in> set ws. is_space c) \<and>
           (\<forall>c \<in> set body. dot c) \<and> js = ''{'' @ body @ ''}''"
proof -
  let ?k = "\<lambda>body. literal (CHR ''}'') (\<lambda>r. if r = [] then Some (''{'' @ body @ ''}'') else None)"
  from assms have "greedy_plus is_space (\<lambda>_. literal (CHR ''{'') (greedy_star dot ?k [])) s = Some js"
    by (simp add: log_regex_json_def)
  from greedy_plus_SomeD[OF this] obtain ws r1 where
    s: "s = ws @ r1" "ws \<noteq> []" "\<forall>c \<in> set ws. is_space c" and
    l: "literal (CHR ''{'') (greedy_star dot ?k []) r1 = Some js"
    by blast
  from l obtain r2 where r1: "r1 = CHR ''{'' # r2" and "greedy_star dot ?k [] r2 = Some js"
    by (auto simp: literal_Some)
  from greedy_star_SomeD[OF this(2)] obtain body r3 where
    r2: "r2 = body @ r3" "\<forall>c \<in> set body. dot c" and "?k ([] @ body) r3 = Some js" by blast
  then have "r3 = ''}''" "js = ''{'' @ body @ ''}''"
    by (auto simp: literal_Some split: if_splits)
  with s r1 r2 show ?thesis by (intro exI[of _ ws] exI[of _ body]) simp
qed

lemma brace_after_space_mid:
  "is_space a \<Longrightarrow> brace_after_space (u @ a # CHR ''{'' # v)"
proof (induction u)
  case Nil
  then show ?case by simp
next
  case (Cons x u)
  then show ?case by (cases "u @ a # CHR ''{'' # v") auto
qed

lemma trimEnd_split: "trimEnd s @ rev (takeWhile is_space (rev s)) = s"
proof -
  have "rev (takeWhile is_space (rev s) @ dropWhile is_space (rev s)) = s" by simp
  then show ?thesis unfolding trimEnd_def rev_append .
qed

lemma trimEnd_last: "trimEnd s \<noteq> [] \<Longrightarrow> \<not> is_space (last (trimEnd s))"
  by (simp add: trimEnd_def last_rev hd_dropWhile)

lemma trimEnd_nonempty: "s \<noteq> [] \<Longrightarrow> \<not> is_space (hd s) \<Longrightarrow> trimEnd s \<noteq> []"
proof -
  assume "s \<noteq> []" "\<not> is_space (hd s)"
  then have "\<exists>c \<in> set (rev s). \<not> is_space c" by (cases s) auto
  then have "dropWhile is_space (rev s) \<noteq> []" by (simp add: dropWhile_eq_Nil_conv)
  then show ?thesis by (simp add: trimEnd_def)
qed

text \<open>
  Inside a message with no brace after white space, the optional group of the
  pattern matches at no position before the white space that ends the message.
\<close>

lemma no_json_inside:
  assumes "\<not> brace_after_space (ys @ zs)" "zs \<noteq> []" "\<not> is_space (last zs)"
  shows "log_regex_json (zs @ tail) = None"
proof (rule ccontr)
  assume "log_regex_json (zs @ tail) \<noteq> None"
  then obtain js where "log_regex_json (zs @ tail) = Some js" by auto
  from log_regex_json_SomeD[OF this] obtain ws body where
    eq: "zs @ tail = ws @ ''{'' @ body @ ''}''" and ws: "ws \<noteq> []" "\<forall>c \<in> set ws. is_space c"
    by blast
  from eq obtain us where
    "(zs = ws @ us \<and> us @ tail = ''{'' @ body @ ''}'') \<or> (zs @ us = ws \<and> tail = us @ ''{'' @ body @ ''}'')"
    by (auto simp: append_eq_append_conv2)
  then show False
  proof
    assume a: "zs = ws @ us \<and> us @ tail = ''{'' @ body @ ''}''"
    show False
    proof (cases us)
      case Nil
      with a assms(2,3) ws show False by auto
    next
      case (Cons u us')
      with a have "u = CHR ''{''" by simp
      with a Cons ws have "ys @ zs = (ys @ butlast ws) @ last ws # CHR ''{'' # us'" "is_space (last ws)"
        by simp_all
      with brace_after_space_mid[of "last ws" "ys @ butlast ws" us'] assms(1) show False by simp
    qed
  next
    assume "zs @ us = ws \<and> tail = us @ ''{'' @ body @ ''}''"
    with assms(2,3) ws show False by (cases zs rule: rev_cases) auto
  qed
qed


lemma brace_after_space_append: "brace_after_space u \<Longrightarrow> brace_after_space (u @ v)"
  by (induction u rule: brace_after_space.induct) auto

lemma brace_after_space_suffix: "brace_after_space v \<Longrightarrow> brace_after_space (u @ v)"
proof (induction u)
  case Nil
  then show ?case by simp
next
  case (Cons x u)
  then show ?case by (cases "u @ v") auto
qed

lemma trim_trimEnd: "trim s = trimEnd (dropWhile is_space s)"
  by (simp add: trim_def trimEnd_def)

lemma message_match:
  assumes "MSG \<noteq> []" "\<not> is_space (hd MSG)" "\<forall>c \<in> set MSG. dot c" "\<not> brace_after_space MSG"
    and "ws3 \<noteq> []" "\<forall>c \<in> set ws3. is_space c" "\<forall>c \<in> set body. dot c"
  shows "lazy_star dot
           (\<lambda>message r. case log_regex_json r of
                           Some jsonStr \<Rightarrow> Some (ts, lv, message, Some jsonStr)
                         | None \<Rightarrow> if r = [] then Some (ts, lv, message, None) else None)
           [] (MSG @ ws3 @ ''{'' @ body @ ''}'') =
         Some (ts, lv, trimEnd MSG, Some (''{'' @ body @ ''}''))"
proof -
  let ?k = "\<lambda>message r. case log_regex_json r of
                           Some jsonStr \<Rightarrow> Some (ts, lv, message, Some jsonStr)
                         | None \<Rightarrow> if r = [] then Some (ts, lv, message, None) else None"
  let ?m = "trimEnd MSG"
  let ?tr = "rev (takeWhile is_space (rev MSG))"
  let ?tail = "(?tr @ ws3) @ ''{'' @ body @ ''}''"
  have split: "MSG = ?m @ ?tr" by (simp add: trimEnd_split)
  have m: "?m \<noteq> []" "\<not> is_space (last ?m)"
    using assms(1,2) by (simp_all add: trimEnd_nonempty trimEnd_last)
  have nb: "\<not> brace_after_space ?m"
    using assms(4) brace_after_space_append[of ?m ?tr] split by auto
  have dots: "\<forall>c \<in> set ?m. dot c"
    using assms(3) split by (metis Un_iff set_append)
  have tr: "\<forall>c \<in> set (?tr @ ws3). is_space c"
    using assms(6) by (auto dest: set_takeWhileD)
  have "lazy_star dot ?k [] (?m @ ?tail) = lazy_star dot ?k ([] @ ?m) ?tail"
  proof (rule lazy_star_skip[OF dots])
    fix ys zs assume yz: "?m = ys @ zs" "zs \<noteq> []"
    with m(2) have "\<not> is_space (last zs)" by simp
    with nb yz have "log_regex_json (zs @ ?tail) = None"
      by (intro no_json_inside[of ys]) simp_all
    with yz(2) show "?k ([] @ ys) (zs @ ?tail) = None" by simp
  qed
  also have "\<dots> = Some (ts, lv, ?m, Some (''{'' @ body @ ''}''))"
  proof (rule lazy_star_hit)
    have "log_regex_json ?tail = Some (''{'' @ body @ ''}'')"
      using assms(5,7) tr by (intro log_regex_json_match) simp_all
    then show "?k ([] @ ?m) ?tail = Some (ts, lv, ?m, Some (''{'' @ body @ ''}''))" by simp
  qed
  finally have "lazy_star dot ?k [] ((?m @ ?tr) @ ws3 @ ''{'' @ body @ ''}'') =
      Some (ts, lv, ?m, Some (''{'' @ body @ ''}''))" by simp
  with split show ?thesis by simp
qed

lemma log_regex_at_line:
  assumes T: "CHR '']'' \<notin> set T" "\<forall>c \<in> set T. dot c"
    and ws1: "ws1 \<noteq> []" "\<forall>c \<in> set ws1. is_space c"
    and L: "LEVEL \<noteq> []" "\<forall>c \<in> set LEVEL. is_word c"
    and ws2: "ws2 \<noteq> []" "\<forall>c \<in> set ws2. is_space c"
    and M: "MSG \<noteq> []" "\<not> is_space (hd MSG)" "\<forall>c \<in> set MSG. dot c" "\<not> brace_after_space MSG"
    and ws3: "ws3 \<noteq> []" "\<forall>c \<in> set ws3. is_space c"
    and B: "\<forall>c \<in> set body. dot c"
  shows "log_regex_at (''['' @ T @ '']'' @ ws1 @ LEVEL @ ws2 @ MSG @ ws3 @ ''{'' @ body @ ''}'') =
           Some (T, LEVEL, trimEnd MSG, Some (''{'' @ body @ ''}''))"
proof -
  let ?js = "''{'' @ body @ ''}''"
  let ?k5 = "\<lambda>ts lv message r. case log_regex_json r of
                           Some jsonStr \<Rightarrow> Some (ts, lv, message, Some jsonStr)
                         | None \<Rightarrow> if r = [] then Some (ts, lv, message, None) else None"
  let ?k4 = "\<lambda>ts lv (_::string). lazy_star dot (?k5 ts lv) []"
  let ?k3 = "\<lambda>ts lv. greedy_plus is_space (?k4 ts lv)"
  let ?k2 = "\<lambda>ts (_::string). greedy_plus is_word (?k3 ts)"
  let ?k1 = "\<lambda>ts. literal (CHR '']'') (greedy_plus is_space (?k2 ts))"
  let ?r3 = "MSG @ ws3 @ ?js"
  let ?r2 = "ws2 @ ?r3"
  let ?r1 = "LEVEL @ ?r2"
  let ?r0 = "ws1 @ ?r1"
  have a4: "?k4 ts lv ws ?r3 = Some (ts, lv, trimEnd MSG, Some ?js)" for ts lv ws
    using message_match[OF M ws3 B] by simp
  have a3: "?k3 ts lv ?r2 = Some (ts, lv, trimEnd MSG, Some ?js)" for ts lv
    using ws2 M(1,2) a4 by - (rule greedy_plus_run, simp_all)
  have a2: "?k2 ts ws ?r1 = Some (ts, LEVEL, trimEnd MSG, Some ?js)" for ts ws
    using L ws2 a3 by - (rule greedy_plus_run, simp_all add: class_facts)
  have a1: "greedy_plus is_space (?k2 ts) ?r0 = Some (ts, LEVEL, trimEnd MSG, Some ?js)" for ts
    using ws1 L a2 by - (rule greedy_plus_run, simp_all add: class_facts)
  have "lazy_star dot ?k1 [] (T @ CHR '']'' # ?r0) = lazy_star dot ?k1 ([] @ T) (CHR '']'' # ?r0)"
  proof (rule lazy_star_skip[OF T(2)])
    fix ys zs assume "T = ys @ zs" "zs \<noteq> []"
    with T(1) have "hd zs \<noteq> CHR '']''" by (cases zs) auto
    with \<open>zs \<noteq> []\<close> show "?k1 ([] @ ys) (zs @ CHR '']'' # ?r0) = None"
      by (cases zs) (simp_all add: literal_def)
  qed
  also have "\<dots> = Some (T, LEVEL, trimEnd MSG, Some ?js)"
  proof (rule lazy_star_hit)
    show "?k1 ([] @ T) (CHR '']'' # ?r0) = Some (T, LEVEL, trimEnd MSG, Some ?js)"
      unfolding append_Nil using a1[of T] by (simp add: literal_Cons)
  qed
  finally show ?thesis
    by (simp add: log_regex_at_def literal_Cons)
qed


lemma log_regex_at_SomeD:
  assumes "log_regex_at s = Some (ts, lv, msg, js)"
  shows "\<exists>ws1 ws2 rest.
           s = ''['' @ ts @ '']'' @ ws1 @ lv @ ws2 @ msg @ rest \<and>
           ws1 \<noteq> [] \<and> (\<forall>c \<in> set ws1. is_space c) \<and> lv \<noteq> [] \<and> (\<forall>c \<in> set lv. is_word c) \<and>
           ws2 \<noteq> [] \<and> (\<forall>c \<in> set ws2. is_space c) \<and>
           (\<forall>c \<in> set ts. dot c) \<and> (\<forall>c \<in> set msg. dot c) \<and>
           (case js of
              None \<Rightarrow> rest = []
            | Some j \<Rightarrow> \<exists>ws3 body. rest = ws3 @ j \<and> j = ''{'' @ body @ ''}'' \<and> ws3 \<noteq> [] \<and>
                          (\<forall>c \<in> set ws3. is_space c) \<and> (\<forall>c \<in> set body. dot c))"
proof -
  let ?k5 = "\<lambda>ts lv message r. case log_regex_json r of
                           Some jsonStr \<Rightarrow> Some (ts, lv, message, Some jsonStr)
                         | None \<Rightarrow> if r = [] then Some (ts, lv, message, None) else None"
  let ?k4 = "\<lambda>ts lv (_::string). lazy_star dot (?k5 ts lv) []"
  let ?k3 = "\<lambda>ts lv. greedy_plus is_space (?k4 ts lv)"
  let ?k2 = "\<lambda>ts (_::string). greedy_plus is_word (?k3 ts)"
  let ?k1 = "\<lambda>ts. literal (CHR '']'') (greedy_plus is_space (?k2 ts))"
  let ?res = "Some (ts, lv, msg, js)"
  from assms have "literal (CHR ''['') (lazy_star dot ?k1 []) s = ?res"
    by (simp add: log_regex_at_def)
  then obtain r0 where s: "s = CHR ''['' # r0" and "lazy_star dot ?k1 [] r0 = ?res"
    by (auto simp: literal_Some)
  from lazy_star_SomeD[OF this(2)] obtain t r1 where
    r0: "r0 = t @ r1" and t: "\<forall>c \<in> set t. dot c" and "?k1 ([] @ t) r1 = ?res" by blast
  then have "literal (CHR '']'') (greedy_plus is_space (?k2 t)) r1 = ?res"
    unfolding append_Nil by simp
  then obtain r2 where r1: "r1 = CHR '']'' # r2" and "greedy_plus is_space (?k2 t) r2 = ?res"
    by (auto simp: literal_Some)
  from greedy_plus_SomeD[OF this(2)] obtain ws1 r3 where
    r2: "r2 = ws1 @ r3" and ws1: "ws1 \<noteq> []" "\<forall>c \<in> set ws1. is_space c" and
    "greedy_plus is_word (?k3 t) r3 = ?res" by blast
  from greedy_plus_SomeD[OF this(4)] obtain l r4 where
    r3: "r3 = l @ r4" and l: "l \<noteq> []" "\<forall>c \<in> set l. is_word c" and
    "greedy_plus is_space (?k4 t l) r4 = ?res" by blast
  from greedy_plus_SomeD[OF this(4)] obtain ws2 r5 where
    r4: "r4 = ws2 @ r5" and ws2: "ws2 \<noteq> []" "\<forall>c \<in> set ws2. is_space c" and
    "lazy_star dot (?k5 t l) [] r5 = ?res" by blast
  from lazy_star_SomeD[OF this(4)] obtain m r6 where
    r5: "r5 = m @ r6" and m: "\<forall>c \<in> set m. dot c" and "?k5 t l ([] @ m) r6 = ?res" by blast
  then have k5: "?k5 t l m r6 = ?res" unfolding append_Nil by simp
  have eqs: "t = ts" "l = lv" "m = msg"
    using k5 by (auto split: option.splits if_splits)
  have tail: "(case js of
              None \<Rightarrow> r6 = []
            | Some j \<Rightarrow> \<exists>ws3 body. r6 = ws3 @ j \<and> j = ''{'' @ body @ ''}'' \<and> ws3 \<noteq> [] \<and>
                          (\<forall>c \<in> set ws3. is_space c) \<and> (\<forall>c \<in> set body. dot c))"
  proof (cases "log_regex_json r6")
    case None
    with k5 show ?thesis by (auto split: if_splits)
  next
    case (Some j)
    with k5 have "js = Some j" by simp
    with log_regex_json_SomeD[OF Some] show ?thesis by auto
  qed
  show ?thesis
    using s r0 r1 r2 r3 r4 r5 t ws1 l ws2 m tail unfolding eqs
    by (intro exI[of _ ws1] exI[of _ ws2] exI[of _ r6]) simp
qed

lemma log_regex_exec_SomeD:
  "log_regex_exec s = Some r \<Longrightarrow> \<exists>pre suf. s = pre @ suf \<and> log_regex_at suf = Some r"
proof (induction s)
  case Nil
  then show ?case by simp
next
  case (Cons c cs)
  show ?case
  proof (cases "log_regex_at (c # cs)")
    case None
    with Cons.prems have "log_regex_exec cs = Some r" by simp
    from Cons.IH[OF this] obtain pre suf where "cs = pre @ suf" "log_regex_at suf = Some r" by blast
    then show ?thesis by (intro exI[of _ "c # pre"] exI[of _ suf]) simp
  next
    case (Some m)
    with Cons.prems have "log_regex_at (c # cs) = Some r" by simp
    then show ?thesis by (intro exI[of _ "[]"] exI[of _ "c # cs"]) simp
  qed
qed

lemma log_regex_exec_hit: "log_regex_at s = Some r \<Longrightarrow> log_regex_exec s = Some r"
  by (cases s) simp_all

text \<open>
  Claim C7, as amended. Take a line \<open>[T] LEVEL message {json}\<close>, the parts separated
  by white space, in which \<open>T\<close> has no closing bracket, \<open>LEVEL\<close> is a non-empty run of
  word characters, the message has a character that is not white space and has no
  white space directly followed by an opening brace, and \<open>T\<close>, the message and the
  json text have no line terminator. Then \<open>parseLine\<close> returns the record with
  timestamp \<open>T\<close>, level \<open>LEVEL\<close>, the message without the json and without the white
  space at its two ends, and as payload what \<open>JSON.parse\<close> makes of the json text, or
  no payload when that throws (the message is reported all the same). A line for
  which \<open>parseLine\<close> returns a record contains the envelope: an opening bracket, the
  timestamp, a closing bracket, white space, the level, white space, the message,
  and then nothing or white space and a brace-delimited text up to the end of the
  line; every other line, such as one with no opening bracket, yields no record.
  \<open>parseLine\<close> is a total function into \<open>ParsedLog option\<close>: it has no way to throw.
\<close>

theorem parseLine_grammar:
  "(CHR '']'' \<notin> set T \<and> list_all dot T \<and> ws1 \<noteq> [] \<and> list_all is_space ws1 \<and>
    LEVEL \<noteq> [] \<and> list_all is_word LEVEL \<and> ws2 \<noteq> [] \<and> list_all is_space ws2 \<and>
    \<not> list_all is_space MSG \<and> list_all dot MSG \<and> \<not> brace_after_space MSG \<and>
    ws3 \<noteq> [] \<and> list_all is_space ws3 \<and> list_all dot body \<longrightarrow>
      parseLine jp (''['' @ T @ '']'' @ ws1 @ LEVEL @ ws2 @ MSG @ ws3 @ ''{'' @ body @ ''}'') =
        Some \<lparr> timestamp = T, level = LEVEL, message = trim MSG,
               jsonPayload = jp (''{'' @ body @ ''}'') \<rparr>)
   \<and> (parseLine jp line = Some p \<longrightarrow>
        (\<exists>pre sp1 sp2 rest.
           line = pre @ ''['' @ timestamp p @ '']'' @ sp1 @ level p @ sp2 @ message p @ rest \<and>
           sp1 \<noteq> [] \<and> list_all is_space sp1 \<and> level p \<noteq> [] \<and> list_all is_word (level p) \<and>
           sp2 \<noteq> [] \<and> list_all is_space sp2 \<and>
           list_all dot (timestamp p) \<and> list_all dot (message p) \<and>
           (rest = [] \<or>
            (\<exists>sp3 inner. rest = sp3 @ ''{'' @ inner @ ''}'' \<and> sp3 \<noteq> [] \<and>
               list_all is_space sp3 \<and> list_all dot inner))))
   \<and> (CHR ''['' \<notin> set line \<longrightarrow> parseLine jp line = None)"
proof -
  have pos: "parseLine jp (''['' @ T @ '']'' @ ws1 @ LEVEL @ ws2 @ MSG @ ws3 @ ''{'' @ body @ ''}'') =
        Some \<lparr> timestamp = T, level = LEVEL, message = trim MSG,
               jsonPayload = jp (''{'' @ body @ ''}'') \<rparr>"
    if "CHR '']'' \<notin> set T" "list_all dot T" "ws1 \<noteq> []" "list_all is_space ws1"
      "LEVEL \<noteq> []" "list_all is_word LEVEL" "ws2 \<noteq> []" "list_all is_space ws2"
      "\<not> list_all is_space MSG" "list_all dot MSG" "\<not> brace_after_space MSG"
      "ws3 \<noteq> []" "list_all is_space ws3" "list_all dot body"
  proof -
    let ?lead = "takeWhile is_space MSG"
    let ?core = "dropWhile is_space MSG"
    have msg: "MSG = ?lead @ ?core" by simp
    have core: "?core \<noteq> []" "\<not> is_space (hd ?core)"
      using that(9) by (simp_all add: list_all_iff dropWhile_eq_Nil_conv hd_dropWhile)
    have dots: "\<forall>c \<in> set ?core. dot c"
      using that(10) by (auto simp: list_all_iff dest: set_dropWhileD)
    have nb: "\<not> brace_after_space ?core"
      using that(11) brace_after_space_suffix[of ?core ?lead] by auto
    have sp: "ws2 @ ?lead \<noteq> []" "\<forall>c \<in> set (ws2 @ ?lead). is_space c"
      using that(7,8) by (auto simp: list_all_iff dest: set_takeWhileD)
    have "log_regex_at (''['' @ T @ '']'' @ ws1 @ LEVEL @ (ws2 @ ?lead) @ ?core @ ws3 @
                          ''{'' @ body @ ''}'') =
           Some (T, LEVEL, trimEnd ?core, Some (''{'' @ body @ ''}''))"
      using that(1-6,12-14) core dots nb sp
      by (intro log_regex_at_line) (simp_all add: list_all_iff)
    moreover have "(ws2 @ ?lead) @ ?core @ ws3 @ ''{'' @ body @ ''}'' =
                     ws2 @ MSG @ ws3 @ ''{'' @ body @ ''}''"
      by simp
    ultimately have "log_regex_at (''['' @ T @ '']'' @ ws1 @ LEVEL @ ws2 @ MSG @ ws3 @
                          ''{'' @ body @ ''}'') =
           Some (T, LEVEL, trim MSG, Some (''{'' @ body @ ''}''))"
      by (simp only: trim_trimEnd)
    from log_regex_exec_hit[OF this] show ?thesis by (simp add: parseLine_def)
  qed
  have snd: "\<exists>pre sp1 sp2 rest.
           line = pre @ ''['' @ timestamp p @ '']'' @ sp1 @ level p @ sp2 @ message p @ rest \<and>
           sp1 \<noteq> [] \<and> list_all is_space sp1 \<and> level p \<noteq> [] \<and> list_all is_word (level p) \<and>
           sp2 \<noteq> [] \<and> list_all is_space sp2 \<and>
           list_all dot (timestamp p) \<and> list_all dot (message p) \<and>
           (rest = [] \<or>
            (\<exists>sp3 inner. rest = sp3 @ ''{'' @ inner @ ''}'' \<and> sp3 \<noteq> [] \<and>
               list_all is_space sp3 \<and> list_all dot inner))"
    if "parseLine jp line = Some p" for p
  proof -
    from that obtain js where e: "log_regex_exec line = Some (timestamp p, level p, message p, js)"
      by (auto simp: parseLine_def split: option.splits)
    from log_regex_exec_SomeD[OF e] obtain pre suf where
      line: "line = pre @ suf" and "log_regex_at suf = Some (timestamp p, level p, message p, js)"
      by blast
    from log_regex_at_SomeD[OF this(2)] obtain sp1 sp2 rest where
      suf: "suf = ''['' @ timestamp p @ '']'' @ sp1 @ level p @ sp2 @ message p @ rest" and
      f: "sp1 \<noteq> []" "\<forall>c \<in> set sp1. is_space c" "level p \<noteq> []" "\<forall>c \<in> set (level p). is_word c"
         "sp2 \<noteq> []" "\<forall>c \<in> set sp2. is_space c"
         "\<forall>c \<in> set (timestamp p). dot c" "\<forall>c \<in> set (message p). dot c" and
      t: "(case js of
              None \<Rightarrow> rest = []
            | Some j \<Rightarrow> \<exists>ws3 body. rest = ws3 @ j \<and> j = ''{'' @ body @ ''}'' \<and> ws3 \<noteq> [] \<and>
                          (\<forall>c \<in> set ws3. is_space c) \<and> (\<forall>c \<in> set body. dot c))"
      by blast
    from t have "rest = [] \<or>
            (\<exists>sp3 inner. rest = sp3 @ ''{'' @ inner @ ''}'' \<and> sp3 \<noteq> [] \<and>
               list_all is_space sp3 \<and> list_all dot inner)"
      by (cases js) (auto simp: list_all_iff)
    with line suf f show ?thesis
      by (intro exI[of _ pre] exI[of _ sp1] exI[of _ sp2] exI[of _ rest]) (simp add: list_all_iff)
  qed
  have none: "parseLine jp line = None" if "CHR ''['' \<notin> set line"
  proof (cases "parseLine jp line")
    case None
    then show ?thesis .
  next
    case (Some q)
    from snd[OF Some] that show ?thesis by auto
  qed
  show ?thesis using pos snd none by blast
qed

theorem parseLine_grammar_witness:
  "parseLine parse_example ''[2024-01-01] WARN  disk almost full  {}'' =
     Some \<lparr> timestamp = ''2024-01-01'', level = ''WARN'', message = ''disk almost full'',
            jsonPayload = Some (JObject []) \<rparr>"
proof -
  have h: "CHR '']'' \<notin> set ''2024-01-01''" "list_all dot ''2024-01-01''" "'' '' \<noteq> []"
    "list_all is_space '' ''" "''WARN'' \<noteq> []" "list_all is_word ''WARN''"
    "\<not> list_all is_space '' disk almost full ''"
    "list_all dot '' disk almost full ''" "\<not> brace_after_space '' disk almost full ''"
    "list_all dot []"
    "trim '' disk almost full '' = ''disk almost full''"
    "parse_example (''{'' @ [] @ ''}'') = Some (JObject [])"
    by code_simp+
  from parseLine_grammar[where T = "''2024-01-01''" and ?ws1.0 = "'' ''" and LEVEL = "''WARN''"
      and ?ws2.0 = "'' ''" and MSG = "'' disk almost full ''" and ?ws3.0 = "'' ''" and body = "[]"
      and jp = parse_example] h
  show ?thesis by (simp add: is_space_def)
qed

theorem parseLine_brace_counterexample:
  "parse_example ''{}'' = Some (JObject []) \<and>
   parseLine parse_example ''[t] INFO user {id} logged in {}'' =
     Some \<lparr> timestamp = ''t'', level = ''INFO'', message = ''user'', jsonPayload = None \<rparr> \<and>
   parseLine parse_example ''[t] INFO  {}'' =
     Some \<lparr> timestamp = ''t'', level = ''INFO'', message = ''{}'', jsonPayload = None \<rparr> \<and>
   parseLine parse_example ''[t] INFO   {}'' =
     Some \<lparr> timestamp = ''t'', level = ''INFO'', message = ''{}'', jsonPayload = None \<rparr> \<and>
   parseLine parse_example ''[a] b c] INFO m {}'' =
     Some \<lparr> timestamp = ''a'', level = ''b'', message = ''c] INFO m'',
            jsonPayload = Some (JObject []) \<rparr> \<and>
   parseLine parse_example ''xx[t] INFO m'' =
     Some \<lparr> timestamp = ''t'', level = ''INFO'', message = ''m'', jsonPayload = None \<rparr>"
  by code_simp

end
